theory Spec2Isabelle
  imports Complex_Main "HOL-Library.AList" "HOL-Library.Word"
begin

section \<open>Values: float64 and int64 cells\<close>

text \<open>
  \<open>read_csv\<close> gives a column of numerals the dtype float64, or int64 when every cell of the
  column is an integer numeral and none is empty. A float64 cell is the missing marker NaN,
  one of the two infinities, or a finite number; an int64 cell is an integer and is never
  missing. Finite numbers are modelled as reals and int64 numbers as 64-bit words read as
  signed. The special values
  follow IEEE 754 as numpy applies it elementwise: NaN is absorbing, a nonzero number
  divided by zero is an infinity, and zero by zero, infinity minus infinity, infinity by
  infinity and zero times infinity are NaN. No elementwise operation raises.

  What is modelled of the machine arithmetic: the difference of two finite float64 numbers
  is an infinity when it leaves the float64 range, and the difference of two int64 numbers
  wraps modulo \<open>2^64\<close>. What is not modelled: the rounding of a result that stays in range
  (of a float64 operation, and of the conversion of an int64 to float64), the sign of zero,
  and overflow in the sum, the products and the quotients of cell 2, which are exact on
  finite numbers. In cell 3 the subtraction is the only operation that can leave the
  range: the quotient it forms is of two differences of cells of one column.
\<close>

datatype float64 = NaN | PInf | NInf | Fin real

fun isna :: "float64 \<Rightarrow> bool" where
  "isna NaN = True"
| "isna _ = False"

fun isfinite :: "float64 \<Rightarrow> bool" where
  "isfinite (Fin _) = True"
| "isfinite _ = False"

fun fneg :: "float64 \<Rightarrow> float64" where
  "fneg NaN = NaN"
| "fneg PInf = NInf"
| "fneg NInf = PInf"
| "fneg (Fin a) = Fin (- a)"

fun fadd :: "float64 \<Rightarrow> float64 \<Rightarrow> float64" where
  "fadd NaN _ = NaN"
| "fadd _ NaN = NaN"
| "fadd PInf NInf = NaN"
| "fadd NInf PInf = NaN"
| "fadd PInf _ = PInf"
| "fadd _ PInf = PInf"
| "fadd NInf _ = NInf"
| "fadd _ NInf = NInf"
| "fadd (Fin a) (Fin b) = Fin (a + b)"

definition float64_overflow :: real where
  \<comment> \<open>\<open>2^1024 - 2^970\<close>, halfway between the largest float64, \<open>2^1024 - 2^971\<close>, and
      \<open>2^1024\<close>: a result of at least this magnitude rounds to an infinity\<close>
  "float64_overflow =
     179769313486231580793728971405303415079934132710037826936173778980444968292764750946649017977587207096330286416692887910946555547851940402630657488671505820681908902000708383676273854845817711531764475730270069855571366959622842914819860834936475292719074168444365510704342711559699508093042880177904174497792"

definition overflow :: "real \<Rightarrow> float64" where
  "overflow r =
     (if float64_overflow \<le> r then PInf
      else if r \<le> - float64_overflow then NInf
      else Fin r)"

fun fsub :: "float64 \<Rightarrow> float64 \<Rightarrow> float64" where
  "fsub (Fin a) (Fin b) = overflow (a - b)"
| "fsub a b = fadd a (fneg b)"

fun fmul :: "float64 \<Rightarrow> float64 \<Rightarrow> float64" where
  "fmul NaN _ = NaN"
| "fmul _ NaN = NaN"
| "fmul (Fin a) (Fin b) = Fin (a * b)"
| "fmul PInf (Fin b) = (if b = 0 then NaN else if 0 < b then PInf else NInf)"
| "fmul NInf (Fin b) = (if b = 0 then NaN else if 0 < b then NInf else PInf)"
| "fmul (Fin a) PInf = (if a = 0 then NaN else if 0 < a then PInf else NInf)"
| "fmul (Fin a) NInf = (if a = 0 then NaN else if 0 < a then NInf else PInf)"
| "fmul PInf PInf = PInf"
| "fmul PInf NInf = NInf"
| "fmul NInf PInf = NInf"
| "fmul NInf NInf = PInf"

fun fdiv :: "float64 \<Rightarrow> float64 \<Rightarrow> float64" where
  "fdiv NaN _ = NaN"
| "fdiv _ NaN = NaN"
| "fdiv (Fin a) (Fin b) =
     (if b = 0 then (if a = 0 then NaN else if 0 < a then PInf else NInf)
      else Fin (a / b))"
| "fdiv (Fin a) PInf = Fin 0"
| "fdiv (Fin a) NInf = Fin 0"
| "fdiv PInf (Fin b) = (if b < 0 then NInf else PInf)"
| "fdiv NInf (Fin b) = (if b < 0 then PInf else NInf)"
| "fdiv PInf PInf = NaN"
| "fdiv PInf NInf = NaN"
| "fdiv NInf PInf = NaN"
| "fdiv NInf NInf = NaN"

text \<open>The order of the values that are not NaN: \<open>-inf < finite < +inf\<close>.\<close>

fun fle :: "float64 \<Rightarrow> float64 \<Rightarrow> bool" where
  "fle NaN _ = False"
| "fle _ NaN = False"
| "fle NInf _ = True"
| "fle _ PInf = True"
| "fle (Fin a) (Fin b) = (a \<le> b)"
| "fle PInf _ = False"
| "fle _ NInf = False"

definition fmin :: "float64 \<Rightarrow> float64 \<Rightarrow> float64" where
  "fmin a b = (if fle a b then a else b)"

definition fmax :: "float64 \<Rightarrow> float64 \<Rightarrow> float64" where
  "fmax a b = (if fle a b then b else a)"

section \<open>Series and data frames\<close>

text \<open>
  A series is the list of its cells, of one dtype. Every series of the notebook is taken
  from one frame and assigned back to the same frame, so pandas' alignment on index labels
  is the identity and elementwise operations pair the cells by position.
\<close>

type_synonym cells = "float64 list"

type_synonym int64 = "64 word"

datatype series = Float64 cells | Int64 "int64 list"

fun as_float :: "series \<Rightarrow> cells" where
  \<comment> \<open>the cells as float64, as an operation with a float64 operand, and true division,
      take them\<close>
  "as_float (Float64 vs) = vs"
| "as_float (Int64 ks) = map (\<lambda>k. Fin (of_int (sint k))) ks"

fun take_series :: "series \<Rightarrow> nat list \<Rightarrow> series" where
  \<comment> \<open>the cells at the given positions, in that order\<close>
  "take_series (Float64 vs) pos = Float64 (map (\<lambda>i. vs ! i) pos)"
| "take_series (Int64 ks) pos = Int64 (map (\<lambda>i. ks ! i) pos)"

definition scalar_mul :: "float64 \<Rightarrow> cells \<Rightarrow> cells" where
  \<comment> \<open>\<open>k * s\<close>\<close>
  "scalar_mul k s = map (\<lambda>v. fmul k v) s"

definition mul_scalar :: "cells \<Rightarrow> float64 \<Rightarrow> cells" where
  \<comment> \<open>\<open>s * k\<close>, as \<open>s *= k\<close> computes\<close>
  "mul_scalar s k = map (\<lambda>v. fmul v k) s"

definition scalar_rdiv :: "float64 \<Rightarrow> cells \<Rightarrow> cells" where
  \<comment> \<open>\<open>k / s\<close>\<close>
  "scalar_rdiv k s = map (\<lambda>v. fdiv k v) s"

definition sub_scalar :: "cells \<Rightarrow> float64 \<Rightarrow> cells" where
  \<comment> \<open>\<open>s - k\<close> in float64\<close>
  "sub_scalar s k = map (\<lambda>v. fsub v k) s"

definition div_scalar :: "cells \<Rightarrow> float64 \<Rightarrow> cells" where
  \<comment> \<open>\<open>s / k\<close>\<close>
  "div_scalar s k = map (\<lambda>v. fdiv v k) s"

definition series_add :: "cells \<Rightarrow> cells \<Rightarrow> cells" where
  \<comment> \<open>\<open>s + t\<close> of two series of one frame\<close>
  "series_add s t = map (\<lambda>(a, b). fadd a b) (zip s t)"

definition int_sub_scalar :: "int64 list \<Rightarrow> int64 \<Rightarrow> int64 list" where
  \<comment> \<open>\<open>s - k\<close> in int64: the difference of words wraps\<close>
  "int_sub_scalar ks k = map (\<lambda>v. v - k) ks"

text \<open>
  \<open>Series.min()\<close> and \<open>Series.max()\<close> of a float64 series skip the missing cells
  (\<open>skipna=True\<close>) and give NaN when no cell is left. Of an int64 series they are int64
  numbers, and NaN when the series is empty.
\<close>

definition float_min :: "cells \<Rightarrow> float64" where
  "float_min s =
     (case filter (\<lambda>v. \<not> isna v) s of [] \<Rightarrow> NaN | x # xs \<Rightarrow> fold fmin xs x)"

definition float_max :: "cells \<Rightarrow> float64" where
  "float_max s =
     (case filter (\<lambda>v. \<not> isna v) s of [] \<Rightarrow> NaN | x # xs \<Rightarrow> fold fmax xs x)"

definition smin :: "int64 \<Rightarrow> int64 \<Rightarrow> int64" where
  "smin a b = (if sint a \<le> sint b then a else b)"

definition smax :: "int64 \<Rightarrow> int64 \<Rightarrow> int64" where
  "smax a b = (if sint a \<le> sint b then b else a)"

fun int_min :: "int64 list \<Rightarrow> int64" where
  \<comment> \<open>of a series that is not empty\<close>
  "int_min [] = 0"
| "int_min (k # ks) = fold smin ks k"

fun int_max :: "int64 list \<Rightarrow> int64" where
  "int_max [] = 0"
| "int_max (k # ks) = fold smax ks k"

fun series_min :: "series \<Rightarrow> float64" where
  \<comment> \<open>\<open>s.min()\<close>, as a number\<close>
  "series_min (Float64 vs) = float_min vs"
| "series_min (Int64 []) = NaN"
| "series_min (Int64 (k # ks)) = Fin (of_int (sint (int_min (k # ks))))"

fun series_max :: "series \<Rightarrow> float64" where
  \<comment> \<open>\<open>s.max()\<close>, as a number\<close>
  "series_max (Float64 vs) = float_max vs"
| "series_max (Int64 []) = NaN"
| "series_max (Int64 (k # ks)) = Fin (of_int (sint (int_max (k # ks))))"

text \<open>
  A data frame is its index (the row labels, \<open>0, 1, 2, ...\<close> as \<open>read_csv\<close> assigns them)
  and its columns in order, each a name with a series. Only numeric columns are modelled:
  the notebook reads no other. A frame is well formed when the labels are distinct, the
  column names are distinct and every column has one cell per label.
\<close>

record dataframe =
  index :: "nat list"
  columns :: "(string \<times> series) list"

definition wf_frame :: "dataframe \<Rightarrow> bool" where
  "wf_frame df \<longleftrightarrow>
     distinct (index df) \<and> distinct (map fst (columns df)) \<and>
     list_all (\<lambda>cs. length (as_float (snd cs)) = length (index df)) (columns df)"

datatype error = KeyError string | ValueError | IndexError | FitError

definition getitem :: "dataframe \<Rightarrow> string \<Rightarrow> error + series" where
  \<comment> \<open>\<open>df[c]\<close>: KeyError when the frame has no such column\<close>
  "getitem df c = (case map_of (columns df) c of None \<Rightarrow> Inl (KeyError c) | Some s \<Rightarrow> Inr s)"

definition setitem :: "dataframe \<Rightarrow> string \<Rightarrow> series \<Rightarrow> dataframe" where
  \<comment> \<open>\<open>df[c] = s\<close>: replaces the column in place, or appends a new last column\<close>
  "setitem df c s = df\<lparr>columns := AList.update c s (columns df)\<rparr>"

fun select_columns :: "(string \<times> series) list \<Rightarrow> string list \<Rightarrow> error + (string \<times> series) list" where
  "select_columns cols [] = Inr []"
| "select_columns cols (c # cs) =
     (case map_of cols c of
        None \<Rightarrow> Inl (KeyError c)
      | Some s \<Rightarrow> (case select_columns cols cs of
                     Inl e \<Rightarrow> Inl e
                   | Inr rest \<Rightarrow> Inr ((c, s) # rest)))"

definition getitems :: "dataframe \<Rightarrow> string list \<Rightarrow> error + dataframe" where
  \<comment> \<open>\<open>df[names]\<close>: a new frame with the named columns in the order given; KeyError when
      a name is missing (the payload here is the first such name)\<close>
  "getitems df names =
     (case select_columns (columns df) names of
        Inl e \<Rightarrow> Inl e
      | Inr cols \<Rightarrow> Inr (df\<lparr>columns := cols\<rparr>))"

section \<open>Column names\<close>

text \<open>
  Python's strings are sequences of code points; here a name is the list of the bytes of
  its UTF-8 encoding, which is injective on names.
\<close>

definition sup2 :: string where "sup2 = [CHR 0xC2, CHR 0xB2]"
definition sup3 :: string where "sup3 = [CHR 0xC2, CHR 0xB3]"
definition angstrom :: string where "angstrom = [CHR 0xC3, CHR 0x85]"

definition uptake_vol :: string where "uptake_vol = ''uptake_vol [g H2/L]''"
definition pore_volume :: string where "pore_volume = ''pore_volume [cm'' @ sup3 @ ''/g]''"
definition Target :: string where "Target = ''Target''"

definition column_names :: "string list" where
  "column_names =
     [''asa_grav [m'' @ sup2 @ ''/g]'', ''asa_vol [m'' @ sup2 @ ''/cm'' @ sup3 @ '']'',
      ''av_vf'', pore_volume,
      ''density [g/cm'' @ sup3 @ '']'', ''nexc [wt. %]'', ''uptake_grav [wt. %]'', uptake_vol,
      ''lcd ['' @ angstrom @ '']'', ''pld ['' @ angstrom @ '']'', ''LFPD ['' @ angstrom @ '']'',
      ''cell_length_a'', ''cell_length_b'', ''cell_length_c'',
      ''cell_angle_alpha'', ''cell_angle_beta'', ''cell_angle_gamma'',
      ''cell_volume ['' @ angstrom @ sup3 @ '']'', Target]"

section \<open>Cell 2: the Target Synthesizer\<close>

text \<open>
  \<^verbatim>\<open>data['Target'] = 0.5 * data['uptake_vol [g H2/L]'] + 0.5 * (1 / data['pore_volume [cm3/g]'])\<close>
  \<^verbatim>\<open>data['Target'] *= 2\<close>

  The product with \<open>0.5\<close> and the true division \<open>1 / s\<close> take the cells of either dtype as
  float64 and give a float64 series.
\<close>

definition target_synthesizer :: "dataframe \<Rightarrow> error + dataframe" where
  "target_synthesizer data =
     (case getitem data uptake_vol of
        Inl e \<Rightarrow> Inl e
      | Inr u \<Rightarrow>
     (case getitem data pore_volume of
        Inl e \<Rightarrow> Inl e
      | Inr p \<Rightarrow>
     (let data1 = setitem data Target
                    (Float64 (series_add (scalar_mul (Fin (1/2)) (as_float u))
                                         (scalar_mul (Fin (1/2)) (scalar_rdiv (Fin 1) (as_float p)))))
      in case getitem data1 Target of
           Inl e \<Rightarrow> Inl e
         | Inr t \<Rightarrow> Inr (setitem data1 Target (Float64 (mul_scalar (as_float t) (Fin 2)))))))"

section \<open>Cell 3: the Feature Normalizer\<close>

text \<open>
  \<^verbatim>\<open>svm_data = data[column_names]\<close>
  \<^verbatim>\<open>for column in column_names:\<close>
  \<^verbatim>\<open>    if column != "Target":\<close>
  \<^verbatim>\<open>        svm_data[column] = (svm_data[column] - svm_data[column].min()) / (svm_data[column].max() - svm_data[column].min())\<close>

  On a float64 column the two differences are float64 differences and may overflow to an
  infinity. On an int64 column that is not empty they are int64 differences and wrap; the
  true division then takes both as float64. The minimum of an empty int64 column is NaN,
  which makes the column an empty float64 column.
\<close>

fun normalize_series :: "series \<Rightarrow> series" where
  "normalize_series (Float64 vs) =
     Float64 (div_scalar (sub_scalar vs (float_min vs)) (fsub (float_max vs) (float_min vs)))"
| "normalize_series (Int64 []) = Float64 []"
| "normalize_series (Int64 (k # ks)) =
     Float64 (div_scalar
       (as_float (Int64 (int_sub_scalar (k # ks) (int_min (k # ks)))))
       (Fin (of_int (sint (int_max (k # ks) - int_min (k # ks))))))"

fun normalize_loop :: "string list \<Rightarrow> dataframe \<Rightarrow> error + dataframe" where
  "normalize_loop [] svm_data = Inr svm_data"
| "normalize_loop (column # rest) svm_data =
     (if column \<noteq> Target then
        (case getitem svm_data column of
           Inl e \<Rightarrow> Inl e
         | Inr s \<Rightarrow> normalize_loop rest (setitem svm_data column (normalize_series s)))
      else normalize_loop rest svm_data)"

definition feature_normalizer :: "dataframe \<Rightarrow> error + dataframe" where
  "feature_normalizer data =
     (case getitems data column_names of
        Inl e \<Rightarrow> Inl e
      | Inr svm_data \<Rightarrow> normalize_loop column_names svm_data)"

section \<open>Cell 4: missing-value filtering, features and target\<close>

text \<open>
  \<^verbatim>\<open>features = [col for col in column_names if col != "Target"]\<close>
  \<^verbatim>\<open>svm_data = svm_data.dropna()\<close>
  \<^verbatim>\<open>X = svm_data[features]\<close>
  \<^verbatim>\<open>y = svm_data['Target']\<close>

  \<open>dropna()\<close> keeps the rows in which no cell is NaN, with their labels; an infinity is not
  a missing value.
\<close>

definition features :: "string list" where
  "features = filter (\<lambda>col. col \<noteq> Target) column_names"

definition notna_rows :: "dataframe \<Rightarrow> nat list" where
  \<comment> \<open>the positions of the rows without a missing cell\<close>
  "notna_rows df =
     filter (\<lambda>i. list_all (\<lambda>cs. \<not> isna (as_float (snd cs) ! i)) (columns df))
       [0..<length (index df)]"

definition take_rows :: "dataframe \<Rightarrow> nat list \<Rightarrow> dataframe" where
  \<comment> \<open>the rows at the given positions, in that order\<close>
  "take_rows df pos =
     \<lparr>index = map (\<lambda>i. index df ! i) pos,
      columns = map (\<lambda>cs. (fst cs, take_series (snd cs) pos)) (columns df)\<rparr>"

definition dropna :: "dataframe \<Rightarrow> dataframe" where
  "dropna df = take_rows df (notna_rows df)"

definition features_and_target :: "dataframe \<Rightarrow> error + (dataframe \<times> series)" where
  "features_and_target svm_data =
     (let svm_data1 = dropna svm_data
      in case getitems svm_data1 features of
           Inl e \<Rightarrow> Inl e
         | Inr X \<Rightarrow>
        (case getitem svm_data1 Target of
           Inl e \<Rightarrow> Inl e
         | Inr y \<Rightarrow> Inr (X, y)))"

definition fit_matrix :: "dataframe \<Rightarrow> error + (dataframe \<times> series)" where
  \<comment> \<open>cells 2 to 4 in sequence: the \<open>X\<close> and \<open>y\<close> that reach the split\<close>
  "fit_matrix data =
     (case target_synthesizer data of
        Inl e \<Rightarrow> Inl e
      | Inr data1 \<Rightarrow>
     (case feature_normalizer data1 of
        Inl e \<Rightarrow> Inl e
      | Inr svm_data \<Rightarrow> features_and_target svm_data))"

section \<open>Cell 5: the Dataset Splitter\<close>

text \<open>
  \<^verbatim>\<open>X_train, X_test, y_train, y_test = train_test_split(X, y, test_size=0.2, random_state=42)\<close>
\<close>

text \<open>
  Modelled from the spec: the body of \<open>train_test_split\<close> and the random generator behind it
  belong to the libraries the notebook imports and are not in the repository. Section 4.3 of
  the specification describes a seeded pseudo-random shuffle-then-cut with an evaluation
  fraction \<open>p\<close>; the model follows it, with the two details the library fixes: the evaluation
  subset has \<open>ceil(p * n)\<close> records and is cut from the front of the shuffle, and a split that
  would leave the training subset empty is rejected with a ValueError. The generator is a
  parameter: \<open>seed_rng\<close> makes a fresh generator state from a seed, \<open>permutation\<close> draws a
  shuffle of \<open>0..<n\<close> from a state and returns the state that follows. With
  \<open>random_state = None\<close> the split draws from the process-wide generator \<open>glob\<close> and
  advances it; with a seed it draws from a fresh generator and leaves \<open>glob\<close> alone.
\<close>

definition train_test_split ::
  "(int \<Rightarrow> 'g) \<Rightarrow> ('g \<Rightarrow> nat \<Rightarrow> nat list \<times> 'g) \<Rightarrow> 'g \<Rightarrow> dataframe \<Rightarrow> series \<Rightarrow> real \<Rightarrow> int option
     \<Rightarrow> error + ((dataframe \<times> dataframe \<times> series \<times> series) \<times> 'g)" where
  "train_test_split seed_rng permutation glob X y test_size random_state =
     (let n_samples = length (index X) in
      if test_size \<le> 0 \<or> 1 \<le> test_size then Inl ValueError
      else
        let n_test = nat \<lceil>test_size * real n_samples\<rceil>;
            n_train = n_samples - n_test
        in if n_train = 0 then Inl ValueError
           else
             let (perm, glob1) =
                   (case random_state of
                      None \<Rightarrow> permutation glob n_samples
                    | Some seed \<Rightarrow> (fst (permutation (seed_rng seed) n_samples), glob));
                 ind_test = take n_test perm;
                 ind_train = take n_train (drop n_test perm)
             in if list_ex (\<lambda>i. n_samples \<le> i) perm then Inl IndexError
                else Inr ((take_rows X ind_train, take_rows X ind_test,
                           take_series y ind_train, take_series y ind_test), glob1))"

definition dataset_splitter ::
  "(int \<Rightarrow> 'g) \<Rightarrow> ('g \<Rightarrow> nat \<Rightarrow> nat list \<times> 'g) \<Rightarrow> 'g \<Rightarrow> dataframe \<Rightarrow> series
     \<Rightarrow> error + ((dataframe \<times> dataframe \<times> series \<times> series) \<times> 'g)" where
  "dataset_splitter seed_rng permutation glob X y =
     train_test_split seed_rng permutation glob X y (1/5) (Some 42)"

definition run_to_split ::
  "(int \<Rightarrow> 'g) \<Rightarrow> ('g \<Rightarrow> nat \<Rightarrow> nat list \<times> 'g) \<Rightarrow> 'g \<Rightarrow> dataframe
     \<Rightarrow> error + ((dataframe \<times> dataframe \<times> series \<times> series) \<times> 'g)" where
  \<comment> \<open>cells 2 to 5 in sequence\<close>
  "run_to_split seed_rng permutation glob data =
     (case fit_matrix data of
        Inl e \<Rightarrow> Inl e
      | Inr (X, y) \<Rightarrow> dataset_splitter seed_rng permutation glob X y)"

section \<open>Cell 6: the Regression Fitter\<close>

text \<open>
  \<^verbatim>\<open>model = LinearRegression()\<close>
  \<^verbatim>\<open>model.fit(X_train, y_train)\<close>
  \<^verbatim>\<open>y_pred = model.predict(X_test)\<close>
  \<^verbatim>\<open>mse = mean_squared_error(y_test, y_pred)\<close>
\<close>

text \<open>
  Modelled from the spec: \<open>LinearRegression\<close> and \<open>mean_squared_error\<close> belong to the
  library the notebook imports and are not in the repository. Section 4.4 of the
  specification describes ordinary least squares through the normal equations, the
  prediction \<open>X w + b\<close> and the mean of the squared differences, over real numbers; section 7
  lets a fitter without a pseudo-inverse report a singular system as a \<open>FitError\<close>. The model
  follows it: the fitter sets up the normal equations of the design matrix, whose rows are
  the records with a leading 1 for the intercept, and solves them by elimination, choosing
  as pivot the first equation whose leading coefficient is not zero. The arithmetic is that
  of the reals. A frame with a cell that is missing or infinite, an empty training or
  evaluation subset and subsets of different lengths are rejected with a ValueError.
\<close>

definition dot :: "real list \<Rightarrow> real list \<Rightarrow> real" where
  "dot u v = sum_list (map (\<lambda>(a, b). a * b) (zip u v))"

fun pivot :: "real list \<times> real \<Rightarrow> bool" where
  \<comment> \<open>the equation has a leading coefficient, and it is not zero\<close>
  "pivot ([], r) = False"
| "pivot (a # as, r) = (a \<noteq> 0)"

fun eliminate :: "real list \<times> real \<Rightarrow> real list \<times> real \<Rightarrow> real list \<times> real" where
  \<comment> \<open>the second equation less the multiple of the pivot equation that cancels its leading
      coefficient, without the leading column\<close>
  "eliminate (a # as, r) (b # bs, s) =
     (map (\<lambda>(b', a'). b' - b / a * a') (zip bs as), s - b / a * r)"
| "eliminate p q = q"

fun back_substitute :: "real list \<times> real \<Rightarrow> real list \<Rightarrow> real" where
  \<comment> \<open>the leading unknown of the pivot equation, the others being known\<close>
  "back_substitute (a # as, r) theta = (r - dot as theta) / a"
| "back_substitute ([], r) theta = 0"

primrec solve :: "nat \<Rightarrow> (real list \<times> real) list \<Rightarrow> real list option" where
  "solve 0 eqs = Some []"
| "solve (Suc k) eqs =
     (case find pivot eqs of
        None \<Rightarrow> None
      | Some p \<Rightarrow>
          (case solve k (map (eliminate p) (remove1 p eqs)) of
             None \<Rightarrow> None
           | Some theta \<Rightarrow> Some (back_substitute p theta # theta)))"

definition normal_equations :: "real list list \<Rightarrow> real list \<Rightarrow> nat \<Rightarrow> (real list \<times> real) list" where
  \<comment> \<open>for the design rows \<open>A\<close> with \<open>k\<close> columns and the targets \<open>y\<close>: the rows of \<open>A\<^sup>T A\<close>, each
      with its entry of \<open>A\<^sup>T y\<close>\<close>
  "normal_equations A y k =
     map (\<lambda>j. (map (\<lambda>l. sum_list (map (\<lambda>r. r ! j * r ! l) A)) [0..<k],
               sum_list (map (\<lambda>(r, t). r ! j * t) (zip A y))))
       [0..<k]"

fun the_real :: "float64 \<Rightarrow> real" where
  "the_real (Fin x) = x"
| "the_real v = 0"

definition to_matrix :: "dataframe \<Rightarrow> error + real list list" where
  \<comment> \<open>the records of a frame as rows of numbers\<close>
  "to_matrix X =
     (if list_all (\<lambda>cs. list_all isfinite (as_float (snd cs))) (columns X)
      then Inr (map (\<lambda>i. map (\<lambda>cs. the_real (as_float (snd cs) ! i)) (columns X))
                  [0..<length (index X)])
      else Inl ValueError)"

definition to_vector :: "series \<Rightarrow> error + real list" where
  "to_vector y =
     (if list_all isfinite (as_float y) then Inr (map the_real (as_float y)) else Inl ValueError)"

definition linear_regression_fit :: "dataframe \<Rightarrow> series \<Rightarrow> error + (real list \<times> real)" where
  \<comment> \<open>the coefficients \<open>w\<close> and the intercept \<open>b\<close>\<close>
  "linear_regression_fit X y =
     (case to_matrix X of
        Inl e \<Rightarrow> Inl e
      | Inr rows \<Rightarrow>
     (case to_vector y of
        Inl e \<Rightarrow> Inl e
      | Inr targets \<Rightarrow>
          if rows = [] \<or> length targets \<noteq> length rows then Inl ValueError
          else
            (case solve (Suc (length (columns X)))
                    (normal_equations (map (\<lambda>x. 1 # x) rows) targets (Suc (length (columns X)))) of
               None \<Rightarrow> Inl FitError
             | Some [] \<Rightarrow> Inl FitError
             | Some (b # w) \<Rightarrow> Inr (w, b))))"





section \<open>Derived notions\<close>

text \<open>
  Names for what the theorems speak about: the cells that cell 2 leaves in \<open>Target\<close>, the
  columns a frame offers, a column as a series and as numbers, a column after cell 3, and
  the two ways the range of a column can leave the machine arithmetic.
\<close>

definition target_series :: "cells \<Rightarrow> cells \<Rightarrow> cells" where
  "target_series u p =
     mul_scalar (series_add (scalar_mul (Fin (1/2)) u)
                            (scalar_mul (Fin (1/2)) (scalar_rdiv (Fin 1) p))) (Fin 2)"

definition has_columns :: "dataframe \<Rightarrow> string list \<Rightarrow> bool" where
  "has_columns df names \<longleftrightarrow> set names \<subseteq> fst ` set (columns df)"

definition column :: "dataframe \<Rightarrow> string \<Rightarrow> series" where
  \<comment> \<open>the series of a column the frame has\<close>
  "column df c = (case getitem df c of Inl e \<Rightarrow> Float64 [] | Inr s \<Rightarrow> s)"

definition col :: "dataframe \<Rightarrow> string \<Rightarrow> cells" where
  \<comment> \<open>the cells of a column the frame has, as numbers\<close>
  "col df c = as_float (column df c)"

definition normalized :: "dataframe \<Rightarrow> string \<Rightarrow> cells" where
  \<comment> \<open>the cells of a column after cell 3\<close>
  "normalized df c = as_float (normalize_series (column df c))"

definition kept_rows :: "dataframe \<Rightarrow> nat list" where
  \<comment> \<open>the positions of the loaded frame whose synthesized target and normalized features
      are all present\<close>
  "kept_rows data =
     filter (\<lambda>i. \<not> isna (target_series (col data uptake_vol) (col data pore_volume) ! i) \<and>
                 list_all (\<lambda>c. \<not> isna (normalized data c ! i)) features)
       [0..<length (index data)]"

fun range_overflows :: "series \<Rightarrow> bool" where
  \<comment> \<open>the column is float64 and its maximum minus its minimum is beyond the float64 range\<close>
  "range_overflows (Float64 vs) = (fsub (float_max vs) (float_min vs) = PInf)"
| "range_overflows (Int64 ks) = False"

fun range_wraps :: "series \<Rightarrow> bool" where
  \<comment> \<open>the column is int64 and its maximum minus its minimum is beyond the int64 range\<close>
  "range_wraps (Float64 vs) = False"
| "range_wraps (Int64 ks) = (2 ^ 63 \<le> sint (int_max ks) - sint (int_min ks))"

definition has_range :: "series \<Rightarrow> bool" where
  \<comment> \<open>the column has a finite minimum and a larger finite maximum, and their float64
      difference is finite\<close>
  "has_range s =
     (case series_min s of
        Fin m \<Rightarrow> (case series_max s of Fin M \<Rightarrow> m < M \<and> \<not> range_overflows s | _ \<Rightarrow> False)
      | _ \<Rightarrow> False)"

section \<open>Example data\<close>

text \<open>
  Small frames on which the theorems below are exercised. \<open>frame_of names f n\<close> has \<open>n\<close>
  rows and the float64 columns \<open>names\<close>, the cell of column \<open>c\<close> in row \<open>i\<close> being \<open>f c i\<close>.
\<close>

definition frame_of :: "string list \<Rightarrow> (string \<Rightarrow> nat \<Rightarrow> float64) \<Rightarrow> nat \<Rightarrow> dataframe" where
  "frame_of names f n =
     \<lparr>index = [0..<n], columns = map (\<lambda>c. (c, Float64 (map (f c) [0..<n]))) names\<rparr>"

definition ramp :: "string \<Rightarrow> nat \<Rightarrow> float64" where
  \<comment> \<open>every column holds 1, 2, 3, ...\<close>
  "ramp c i = Fin (real i + 1)"

definition ramp_gap :: "string \<Rightarrow> nat \<Rightarrow> float64" where
  \<comment> \<open>as \<open>ramp\<close>, with the pore volume of row 0 missing\<close>
  "ramp_gap c i = (if c = pore_volume \<and> i = 0 then NaN else ramp c i)"

definition ramp_zero :: "string \<Rightarrow> nat \<Rightarrow> float64" where
  \<comment> \<open>as \<open>ramp\<close>, with pore volumes 0, 1, 2, ...\<close>
  "ramp_zero c i = (if c = pore_volume then Fin (real i) else ramp c i)"

definition ramp_const :: "string \<Rightarrow> nat \<Rightarrow> float64" where
  \<comment> \<open>as \<open>ramp\<close>, with every cell angle alpha equal to 90\<close>
  "ramp_const c i = (if c = ''cell_angle_alpha'' then Fin 90 else ramp c i)"

definition ramp_flat :: "string \<Rightarrow> nat \<Rightarrow> float64" where
  \<comment> \<open>as \<open>ramp_gap\<close>, with every cell angle alpha equal to 90\<close>
  "ramp_flat c i = (if c = ''cell_angle_alpha'' then Fin 90 else ramp_gap c i)"

definition ramp_inf :: "string \<Rightarrow> nat \<Rightarrow> float64" where
  \<comment> \<open>as \<open>ramp\<close>, with an infinite void fraction in row 0\<close>
  "ramp_inf c i = (if c = ''av_vf'' \<and> i = 0 then PInf else ramp c i)"

definition ramp_ends :: "string \<Rightarrow> nat \<Rightarrow> float64" where
  \<comment> \<open>as \<open>ramp\<close>, with the pore volume of rows 0 and 3 missing\<close>
  "ramp_ends c i = (if c = pore_volume \<and> (i = 0 \<or> i = 3) then NaN else ramp c i)"

definition ramp_big :: "string \<Rightarrow> nat \<Rightarrow> float64" where
  \<comment> \<open>as \<open>ramp\<close>, with the void fractions \<open>-1e308, 0, 1e308, ...\<close>\<close>
  "ramp_big c i =
     (if c = ''av_vf'' then
        Fin ((real i - 1) *
          100000000000000000000000000000000000000000000000000000000000000000000000000000000000000000000000000000000000000000000000000000000000000000000000000000000000000000000000000000000000000000000000000000000000000000000000000000000000000000000000000000000000000000000000000000000000000000000000000000000000000000000)
      else ramp c i)"

definition ramp_gap_big :: "string \<Rightarrow> nat \<Rightarrow> float64" where
  \<comment> \<open>as \<open>ramp_gap\<close>, with the void fractions \<open>0, -1e308, 0, 0, 1e308\<close>\<close>
  "ramp_gap_big c i =
     (if c = ''av_vf'' then
        Fin ((if i = 1 then - 1 else if i = 4 then 1 else 0) *
          100000000000000000000000000000000000000000000000000000000000000000000000000000000000000000000000000000000000000000000000000000000000000000000000000000000000000000000000000000000000000000000000000000000000000000000000000000000000000000000000000000000000000000000000000000000000000000000000000000000000000000000)
      else ramp_gap c i)"

definition int_void :: "dataframe \<Rightarrow> dataframe" where
  \<comment> \<open>the frame with the int64 void fractions \<open>-5e18, 0, 5e18\<close>\<close>
  "int_void df = setitem df ''av_vf'' (Int64 [- 5000000000000000000, 0, 5000000000000000000])"

definition int_small :: "dataframe \<Rightarrow> dataframe" where
  \<comment> \<open>the frame with the int64 void fractions \<open>10, 20, 40\<close>\<close>
  "int_small df = setitem df ''av_vf'' (Int64 [10, 20, 40])"





definition unit_seed :: "int \<Rightarrow> unit" where
  \<comment> \<open>a stand-in generator has one state\<close>
  "unit_seed seed = ()"

definition nat_seed :: "int \<Rightarrow> nat" where
  \<comment> \<open>a stand-in generator whose state is a counter\<close>
  "nat_seed seed = nat seed"

definition rot_permutation :: "nat \<Rightarrow> nat \<Rightarrow> nat list \<times> nat" where
  \<comment> \<open>the shuffle rotates by the counter, and advances it\<close>
  "rot_permutation g n = (rotate g [0..<n], Suc g)"

definition rev_permutation :: "unit \<Rightarrow> nat \<Rightarrow> nat list \<times> unit" where
  \<comment> \<open>a stand-in generator: the shuffle is the reversal\<close>
  "rev_permutation g n = (rev [0..<n], g)"

section \<open>Facts about the column names\<close>

lemmas name_defs = column_names_def uptake_vol_def pore_volume_def Target_def sup2_def sup3_def angstrom_def

lemma distinct_column_names: "distinct column_names"
  by (simp add: name_defs)

lemma Target_in_column_names: "Target \<in> set column_names"
  by (simp add: column_names_def)

lemma set_features: "set features = set column_names - {Target}"
  by (auto simp: features_def)

lemma distinct_features: "distinct features"
  by (simp add: features_def distinct_column_names)

lemma Target_notin_features: "Target \<notin> set features"
  by (simp add: features_def)

lemma set_column_names: "set column_names = insert Target (set features)"
  using Target_in_column_names by (auto simp: set_features)

lemma uptake_vol_feature: "uptake_vol \<in> set features"
  by (simp add: features_def name_defs)

lemma pore_volume_feature: "pore_volume \<in> set features"
  by (simp add: features_def name_defs)

lemma alpha_feature: "''cell_angle_alpha'' \<in> set features"
  by (simp add: features_def name_defs)

lemma av_vf_feature: "''av_vf'' \<in> set features"
  by (simp add: features_def name_defs)

lemma pore_volume_neq: "pore_volume \<noteq> ''cell_angle_alpha''" "pore_volume \<noteq> ''av_vf''" "uptake_vol \<noteq> pore_volume"
  by (simp_all add: name_defs)

section \<open>Facts about frames and the cells of the notebook\<close>

lemma getitem_setitem: "getitem (setitem df c s) c' = (if c' = c then Inr s else getitem df c')"
  by (simp add: getitem_def setitem_def update_conv')

lemma index_setitem: "index (setitem df c s) = index df"
  by (simp add: setitem_def)

lemma setitem_setitem: "setitem (setitem df c s) c t = setitem df c t"
  by (simp add: setitem_def)

lemma keys_setitem: "fst ` set (columns (setitem df c s)) = insert c (fst ` set (columns df))"
  by (simp add: setitem_def dom_update)

lemma getitem_Inr_Some: "getitem df c = Inr s \<longleftrightarrow> map_of (columns df) c = Some s"
  by (simp add: getitem_def split: option.split)

lemma getitem_Inr_iff: "(\<exists>s. getitem df c = Inr s) \<longleftrightarrow> c \<in> fst ` set (columns df)"
  using map_of_eq_None_iff[of "columns df" c]
  by (cases "map_of (columns df) c") (auto simp: getitem_Inr_Some)

lemma getitem_Inr_mem: "distinct (map fst (columns df)) \<Longrightarrow> getitem df c = Inr s \<longleftrightarrow> (c, s) \<in> set (columns df)"
  by (simp add: getitem_Inr_Some)

lemma target_synthesizer_Inr:
  assumes "getitem data uptake_vol = Inr u" and "getitem data pore_volume = Inr p"
  shows "target_synthesizer data =
           Inr (setitem data Target (Float64 (target_series (as_float u) (as_float p))))"
  using assms
  by (simp add: target_synthesizer_def Let_def getitem_setitem setitem_setitem target_series_def)

lemma length_target_series: "length (target_series u p) = min (length u) (length p)"
  by (simp add: target_series_def mul_scalar_def series_add_def scalar_mul_def scalar_rdiv_def)

lemma nth_target_series:
  "i < length u \<Longrightarrow> i < length p \<Longrightarrow>
   target_series u p ! i =
     fmul (fadd (fmul (Fin (1/2)) (u ! i)) (fmul (Fin (1/2)) (fdiv (Fin 1) (p ! i)))) (Fin 2)"
  by (simp add: target_series_def mul_scalar_def series_add_def scalar_mul_def scalar_rdiv_def)

lemma fmul_commute: "fmul a b = fmul b a"
  by (cases a; cases b) (auto simp: mult.commute)

lemma select_columns_Inr:
  "set names \<subseteq> fst ` set cols \<Longrightarrow>
   select_columns cols names = Inr (map (\<lambda>c. (c, the (map_of cols c))) names)"
proof (induction names)
  case Nil
  then show ?case by simp
next
  case (Cons c cs)
  then obtain s where "map_of cols c = Some s"
    by (cases "map_of cols c") (auto simp: map_of_eq_None_iff)
  with Cons show ?case by simp
qed

lemma map_of_named: "map_of (map (\<lambda>c. (c, g c)) names) c = (if c \<in> set names then Some (g c) else None)"
  by (induction names) auto

lemma update_as_map:
  "distinct (map fst al) \<Longrightarrow> map_of al k = Some s \<Longrightarrow>
   AList.update k (f s) al = map (\<lambda>cs. if fst cs = k then (k, f (snd cs)) else cs) al"
proof (induction al)
  case Nil
  then show ?case by simp
next
  case (Cons a al)
  show ?case
  proof (cases "fst a = k")
    case True
    with Cons.prems have "snd a = s" by (cases a) simp
    moreover from True Cons.prems have "k \<notin> fst ` set al" by auto
    then have "map (\<lambda>cs. if fst cs = k then (k, f (snd cs)) else cs) al = al"
      by (induction al) auto
    ultimately show ?thesis using True by (cases a) simp
  next
    case False
    with Cons show ?thesis by (cases a) auto
  qed
qed

lemma normalize_loop_Inr:
  "distinct names \<Longrightarrow> distinct (map fst (columns df)) \<Longrightarrow>
   set names - {Target} \<subseteq> fst ` set (columns df) \<Longrightarrow>
   normalize_loop names df =
     Inr (df\<lparr>columns := map (\<lambda>cs. (fst cs, if fst cs \<in> set names \<and> fst cs \<noteq> Target
                                        then normalize_series (snd cs) else snd cs)) (columns df)\<rparr>)"
proof (induction names arbitrary: df)
  case Nil
  then show ?case by simp
next
  case (Cons column rest)
  show ?case
  proof (cases "column = Target")
    case True
    with Cons.prems have "normalize_loop rest df = Inr (df\<lparr>columns := map (\<lambda>cs. (fst cs, if fst cs \<in> set rest \<and> fst cs \<noteq> Target
                                        then normalize_series (snd cs) else snd cs)) (columns df)\<rparr>)"
      by (intro Cons.IH) auto
    with True show ?thesis by (auto intro!: arg_cong[where f="\<lambda>c. df\<lparr>columns := c\<rparr>"])
  next
    case False
    with Cons.prems obtain s where s: "map_of (columns df) column = Some s"
      by (cases "map_of (columns df) column") (auto simp: map_of_eq_None_iff)
    let ?df = "setitem df column (normalize_series s)"
    have cols: "columns ?df = map (\<lambda>cs. if fst cs = column then (column, normalize_series (snd cs)) else cs) (columns df)"
      using update_as_map[OF Cons.prems(2) s, of normalize_series] by (simp add: setitem_def)
    have keys: "map fst (columns ?df) = map fst (columns df)"
      by (simp add: cols comp_def if_distrib cong: if_cong)
    have "normalize_loop rest ?df = Inr (?df\<lparr>columns := map (\<lambda>cs. (fst cs, if fst cs \<in> set rest \<and> fst cs \<noteq> Target
                                        then normalize_series (snd cs) else snd cs)) (columns ?df)\<rparr>)"
    proof (intro Cons.IH)
      show "distinct rest" using Cons.prems by simp
      show "distinct (map fst (columns ?df))" using Cons.prems by (simp add: keys)
      have "fst ` set (columns ?df) = fst ` set (columns df)"
        using arg_cong[OF keys, of set] by simp
      then show "set rest - {Target} \<subseteq> fst ` set (columns ?df)"
        using Cons.prems by auto
    qed
    moreover have "column \<notin> set rest" using Cons.prems by simp
    then have "map (\<lambda>cs. (fst cs, if fst cs \<in> set rest \<and> fst cs \<noteq> Target
                                        then normalize_series (snd cs) else snd cs)) (columns ?df)
        = map (\<lambda>cs. (fst cs, if fst cs \<in> set (column # rest) \<and> fst cs \<noteq> Target
                                        then normalize_series (snd cs) else snd cs)) (columns df)"
      unfolding cols using False by auto
    moreover have "normalize_loop (column # rest) df = normalize_loop rest ?df"
      using False s by (simp add: getitem_def)
    moreover have "\<And>X. ?df\<lparr>columns := X\<rparr> = df\<lparr>columns := X\<rparr>"
      by (simp add: setitem_def)
    ultimately show ?thesis by simp
  qed
qed


lemma column_getitem: "getitem df c = Inr s \<Longrightarrow> column df c = s"
  by (simp add: column_def)

lemma getitem_column: "c \<in> fst ` set (columns df) \<Longrightarrow> getitem df c = Inr (column df c)"
  using getitem_Inr_iff[of df c] by (auto simp: column_def)

lemma the_map_of_column:
  "c \<in> fst ` set (columns df) \<Longrightarrow> the (map_of (columns df) c) = column df c"
  using getitem_column[of c df] by (simp add: getitem_Inr_Some)

lemma column_setitem: "column (setitem df c s) c' = (if c' = c then s else column df c')"
  by (simp add: column_def getitem_setitem)

lemma col_getitem: "getitem df c = Inr s \<Longrightarrow> col df c = as_float s"
  by (simp add: col_def column_getitem)

lemma normalize_series_Float64: "normalize_series s = Float64 (as_float (normalize_series s))"
  by (induction s rule: normalize_series.induct) simp_all

lemma length_normalize_series: "length (as_float (normalize_series s)) = length (as_float s)"
  by (induction s rule: normalize_series.induct)
     (simp_all add: div_scalar_def sub_scalar_def int_sub_scalar_def)

lemma normalize_column: "normalize_series (column df c) = Float64 (normalized df c)"
  unfolding normalized_def by (rule normalize_series_Float64)

lemma getitems_Inr:
  assumes "has_columns df names"
  shows "getitems df names = Inr (df\<lparr>columns := map (\<lambda>c. (c, column df c)) names\<rparr>)"
proof -
  have "the (map_of (columns df) c) = column df c" if "c \<in> set names" for c
    using assms that by (intro the_map_of_column) (auto simp: has_columns_def)
  then have "map (\<lambda>c. (c, the (map_of (columns df) c))) names = map (\<lambda>c. (c, column df c)) names"
    by simp
  then show ?thesis
    using assms select_columns_Inr[of names "columns df"]
    by (simp add: getitems_def has_columns_def)
qed

lemma feature_normalizer_Inr:
  assumes "has_columns data column_names"
  shows "feature_normalizer data =
     Inr (data\<lparr>columns := map (\<lambda>c. (c, if c \<noteq> Target then normalize_series (column data c)
                                          else column data c)) column_names\<rparr>)"
proof -
  let ?svm = "data\<lparr>columns := map (\<lambda>c. (c, column data c)) column_names\<rparr>"
  have keys: "map fst (columns ?svm) = column_names"
    by (simp add: comp_def)
  have "normalize_loop column_names ?svm =
     Inr (?svm\<lparr>columns := map (\<lambda>cs. (fst cs, if fst cs \<in> set column_names \<and> fst cs \<noteq> Target
                                        then normalize_series (snd cs) else snd cs)) (columns ?svm)\<rparr>)"
  proof (rule normalize_loop_Inr)
    show "distinct column_names" by (rule distinct_column_names)
    show "distinct (map fst (columns ?svm))" unfolding keys by (rule distinct_column_names)
    show "set column_names - {Target} \<subseteq> fst ` set (columns ?svm)"
      by (auto simp: image_image)
  qed
  then show ?thesis
    using getitems_Inr[OF assms] by (simp add: feature_normalizer_def comp_def)
qed

lemma synthesize_normalize_Inr:
  assumes "has_columns data features"
  defines "t \<equiv> target_series (col data uptake_vol) (col data pore_volume)"
  shows "target_synthesizer data = Inr (setitem data Target (Float64 t))"
    and "feature_normalizer (setitem data Target (Float64 t)) =
           Inr \<lparr>index = index data,
                columns = map (\<lambda>c. (c, Float64 (if c \<noteq> Target then normalized data c else t)))
                            column_names\<rparr>"
proof -
  let ?data1 = "setitem data Target (Float64 t)"
  have present: "uptake_vol \<in> fst ` set (columns data)" "pore_volume \<in> fst ` set (columns data)"
    using assms(1) uptake_vol_feature pore_volume_feature by (auto simp: has_columns_def)
  show "target_synthesizer data = Inr ?data1"
    unfolding t_def col_def using present by (intro target_synthesizer_Inr getitem_column)
  have "has_columns ?data1 column_names"
    using assms(1) by (auto simp: has_columns_def keys_setitem set_column_names)
  from feature_normalizer_Inr[OF this]
  have "feature_normalizer ?data1 =
     Inr (?data1\<lparr>columns := map (\<lambda>c. (c, if c \<noteq> Target then normalize_series (column ?data1 c)
                                          else column ?data1 c)) column_names\<rparr>)" .
  moreover have "map (\<lambda>c. (c, if c \<noteq> Target then normalize_series (column ?data1 c)
                                          else column ?data1 c)) column_names
      = map (\<lambda>c. (c, Float64 (if c \<noteq> Target then normalized data c else t))) column_names"
    by (simp add: column_setitem normalize_column)
  moreover have "\<And>X. ?data1\<lparr>columns := X\<rparr> = \<lparr>index = index data, columns = X\<rparr>"
    by (simp add: setitem_def)
  ultimately show "feature_normalizer ?data1 =
           Inr \<lparr>index = index data,
                columns = map (\<lambda>c. (c, Float64 (if c \<noteq> Target then normalized data c else t)))
                            column_names\<rparr>"
    by simp
qed

lemma columns_take_rows:
  "columns (take_rows \<lparr>index = ix, columns = map (\<lambda>c. (c, Float64 (g c))) names\<rparr> pos) =
     map (\<lambda>c. (c, Float64 (map (\<lambda>i. g c ! i) pos))) names"
  by (simp add: take_rows_def comp_def)

lemma fit_matrix_Inr:
  assumes "has_columns data features"
  shows "fit_matrix data =
     Inr (\<lparr>index = map (\<lambda>i. index data ! i) (kept_rows data),
           columns = map (\<lambda>c. (c, Float64 (map (\<lambda>i. normalized data c ! i) (kept_rows data))))
                       features\<rparr>,
          Float64 (map (\<lambda>i. target_series (col data uptake_vol) (col data pore_volume) ! i)
                    (kept_rows data)))"
proof -
  let ?t = "target_series (col data uptake_vol) (col data pore_volume)"
  let ?data1 = "setitem data Target (Float64 ?t)"
  let ?g = "\<lambda>c. if c \<noteq> Target then normalized data c else ?t"
  let ?svm = "\<lparr>index = index data, columns = map (\<lambda>c. (c, Float64 (?g c))) column_names\<rparr>"
  note sn = synthesize_normalize_Inr[OF assms]
  have 1: "target_synthesizer data = Inr ?data1" by (rule sn(1))
  have 2: "feature_normalizer ?data1 = Inr ?svm" by (rule sn(2))
  have keep: "notna_rows ?svm = kept_rows data"
    unfolding notna_rows_def kept_rows_def
    by (rule filter_cong) (auto simp: list_all_iff set_column_names Target_notin_features)
  let ?dropped = "take_rows ?svm (kept_rows data)"
  have cols: "columns ?dropped =
      map (\<lambda>c. (c, Float64 (map (\<lambda>i. ?g c ! i) (kept_rows data)))) column_names"
    by (rule columns_take_rows)
  have ix: "index ?dropped = map (\<lambda>i. index data ! i) (kept_rows data)"
    by (simp add: take_rows_def)
  have hf: "has_columns ?dropped features"
    by (auto simp: has_columns_def cols set_column_names image_image)
  have colf: "c \<in> set features \<Longrightarrow>
      column ?dropped c = Float64 (map (\<lambda>i. normalized data c ! i) (kept_rows data))" for c
    using Target_notin_features
    by (auto simp: column_def getitem_def cols map_of_named set_column_names)
  have 3: "getitems ?dropped features =
      Inr \<lparr>index = map (\<lambda>i. index data ! i) (kept_rows data),
           columns = map (\<lambda>c. (c, Float64 (map (\<lambda>i. normalized data c ! i) (kept_rows data))))
                       features\<rparr>"
    using getitems_Inr[OF hf] colf ix by (simp cong: map_cong)
  have 4: "getitem ?dropped Target = Inr (Float64 (map (\<lambda>i. ?t ! i) (kept_rows data)))"
    by (simp add: getitem_def cols map_of_named Target_in_column_names)
  show ?thesis
    by (simp add: fit_matrix_def 1 2 features_and_target_def dropna_def keep 3 4 Let_def)
qed

section \<open>Facts about the order, the extremes and the normalized cells\<close>

lemma fle_refl: "\<not> isna a \<Longrightarrow> fle a a"
  by (cases a) auto

lemma fle_trans: "fle a b \<Longrightarrow> fle b c \<Longrightarrow> fle a c"
  by (cases a; cases b; cases c) auto

lemma fle_total: "\<not> isna a \<Longrightarrow> \<not> isna b \<Longrightarrow> fle a b \<or> fle b a"
  by (cases a; cases b) auto

lemma fle_antisym: "fle a b \<Longrightarrow> fle b a \<Longrightarrow> a = b"
  by (cases a; cases b) auto

lemma fold_fmin:
  "\<not> isna x \<Longrightarrow> \<forall>v\<in>set xs. \<not> isna v \<Longrightarrow>
   fold fmin xs x \<in> set (x # xs) \<and> (\<forall>v\<in>set (x # xs). fle (fold fmin xs x) v)"
proof (induction xs arbitrary: x)
  case Nil
  then show ?case by (simp add: fle_refl)
next
  case (Cons a xs)
  have na: "\<not> isna (fmin a x)" using Cons.prems by (simp add: fmin_def)
  from Cons.IH[OF na] Cons.prems
  have ih: "fold fmin xs (fmin a x) \<in> set (fmin a x # xs)"
     "\<forall>v\<in>set (fmin a x # xs). fle (fold fmin xs (fmin a x)) v" by auto
  have "fle (fmin a x) x" "fle (fmin a x) a"
    using Cons.prems fle_total[of a x] by (auto simp: fmin_def fle_refl)
  with ih(2) have "fle (fold fmin xs (fmin a x)) x" "fle (fold fmin xs (fmin a x)) a"
    by (auto intro: fle_trans)
  moreover have "fmin a x = x \<or> fmin a x = a" by (simp add: fmin_def)
  ultimately show ?case using ih by auto
qed

lemma fold_fmax:
  "\<not> isna x \<Longrightarrow> \<forall>v\<in>set xs. \<not> isna v \<Longrightarrow>
   fold fmax xs x \<in> set (x # xs) \<and> (\<forall>v\<in>set (x # xs). fle v (fold fmax xs x))"
proof (induction xs arbitrary: x)
  case Nil
  then show ?case by (simp add: fle_refl)
next
  case (Cons a xs)
  have na: "\<not> isna (fmax a x)" using Cons.prems by (simp add: fmax_def)
  from Cons.IH[OF na] Cons.prems
  have ih: "fold fmax xs (fmax a x) \<in> set (fmax a x # xs)"
     "\<forall>v\<in>set (fmax a x # xs). fle v (fold fmax xs (fmax a x))" by auto
  have "fle x (fmax a x)" "fle a (fmax a x)"
    using Cons.prems fle_total[of a x] by (auto simp: fmax_def fle_refl)
  with ih(2) have "fle x (fold fmax xs (fmax a x))" "fle a (fold fmax xs (fmax a x))"
    by (auto intro: fle_trans)
  moreover have "fmax a x = x \<or> fmax a x = a" by (simp add: fmax_def)
  ultimately show ?case using ih by auto
qed

lemma float_min_props:
  assumes "v \<in> set s" and "\<not> isna v"
  shows "float_min s \<in> set s" and "fle (float_min s) v"
proof -
  let ?vals = "filter (\<lambda>v. \<not> isna v) s"
  from assms have "v \<in> set ?vals" by simp
  then obtain x xs where vals: "?vals = x # xs" by (cases ?vals) auto
  have "\<forall>v\<in>set ?vals. \<not> isna v" by simp
  then have "\<not> isna x" "\<forall>v\<in>set xs. \<not> isna v"
    unfolding vals by simp_all
  from fold_fmin[OF this] have "fold fmin xs x \<in> set ?vals" "\<forall>v\<in>set ?vals. fle (fold fmin xs x) v"
    by (simp_all add: vals)
  moreover have "float_min s = fold fmin xs x" by (simp add: float_min_def vals)
  ultimately show "float_min s \<in> set s" "fle (float_min s) v"
    using \<open>v \<in> set ?vals\<close> by auto
qed


lemma float_max_props:
  assumes "v \<in> set s" and "\<not> isna v"
  shows "float_max s \<in> set s" and "fle v (float_max s)"
proof -
  let ?vals = "filter (\<lambda>v. \<not> isna v) s"
  from assms have "v \<in> set ?vals" by simp
  then obtain x xs where vals: "?vals = x # xs" by (cases ?vals) auto
  have "\<forall>v\<in>set ?vals. \<not> isna v" by simp
  then have "\<not> isna x" "\<forall>v\<in>set xs. \<not> isna v"
    unfolding vals by simp_all
  from fold_fmax[OF this] have "fold fmax xs x \<in> set ?vals" "\<forall>v\<in>set ?vals. fle v (fold fmax xs x)"
    by (simp_all add: vals)
  moreover have "float_max s = fold fmax xs x" by (simp add: float_max_def vals)
  ultimately show "float_max s \<in> set s" "fle v (float_max s)"
    using \<open>v \<in> set ?vals\<close> by auto
qed

lemma float_min_NaN: "\<forall>v\<in>set s. isna v \<Longrightarrow> float_min s = NaN"
  by (simp add: float_min_def filter_empty_conv[THEN iffD2])

lemma float_max_NaN: "\<forall>v\<in>set s. isna v \<Longrightarrow> float_max s = NaN"
  by (simp add: float_max_def filter_empty_conv[THEN iffD2])

lemma isna_iff: "isna v \<longleftrightarrow> v = NaN"
  by (cases v) auto

lemma float64_overflow_pos: "0 < float64_overflow"
  by (simp add: float64_overflow_def)

lemma overflow_nonneg:
  "0 \<le> r \<Longrightarrow> overflow r = (if float64_overflow \<le> r then PInf else Fin r)"
  using float64_overflow_pos by (simp add: overflow_def)

lemma fsub_NaN_left: "fsub NaN v = NaN"
  by (cases v) simp_all

lemma fsub_NaN_right: "fsub v NaN = NaN"
  by (cases v) simp_all

lemma fdiv_NaN_left: "fdiv NaN v = NaN"
  by simp

lemma fdiv_fsub_range:
  assumes "fle m v" and "fle v M"
  shows "fdiv (fsub v m) (fsub M m) = NaN \<or>
         (\<exists>x. fdiv (fsub v m) (fsub M m) = Fin x \<and> 0 \<le> x \<and> x \<le> 1)"
proof (cases m; cases v; cases M)
  fix a b c
  assume eq: "m = Fin a" "v = Fin b" "M = Fin c"
  with assms have le: "a \<le> b" "b \<le> c" by simp_all
  then have "c - a \<noteq> 0 \<Longrightarrow> 0 \<le> (b - a) / (c - a) \<and> (b - a) / (c - a) \<le> 1"
    by (simp add: divide_le_eq_1)
  moreover have "c - a = 0 \<Longrightarrow> b - a = 0" using le by simp
  moreover have "0 \<le> b - a" "0 \<le> c - a" "b - a \<le> c - a" using le by simp_all
  ultimately show ?thesis using eq by (auto simp: overflow_nonneg)
qed (use assms in \<open>auto simp: overflow_nonneg\<close>)

lemma fdiv_fsub_same: "fdiv (fsub a a) (fsub a a) = NaN"
  by (cases a) (simp_all add: overflow_nonneg float64_overflow_pos)

lemma nth_div_sub_scalar:
  "i < length vs \<Longrightarrow> div_scalar (sub_scalar vs m) d ! i = fdiv (fsub (vs ! i) m) d"
  by (simp add: div_scalar_def sub_scalar_def)

lemma nth_normalized_float:
  "i < length vs \<Longrightarrow>
   as_float (normalize_series (Float64 vs)) ! i =
     fdiv (fsub (vs ! i) (float_min vs)) (fsub (float_max vs) (float_min vs))"
  by (simp add: div_scalar_def sub_scalar_def)

lemma normalized_int:
  "ks \<noteq> [] \<Longrightarrow>
   as_float (normalize_series (Int64 ks)) =
     map (\<lambda>v. fdiv (Fin (of_int (sint (v - int_min ks))))
                   (Fin (of_int (sint (int_max ks - int_min ks))))) ks"
proof (cases ks)
  case (Cons k ks')
  have "as_float (normalize_series (Int64 (k # ks'))) =
     map (\<lambda>v. fdiv (Fin (of_int (sint (v - int_min (k # ks')))))
                   (Fin (of_int (sint (int_max (k # ks') - int_min (k # ks')))))) (k # ks')"
    unfolding normalize_series.simps as_float.simps div_scalar_def int_sub_scalar_def map_map comp_def
    by (rule refl)
  then show ?thesis using Cons by simp
qed simp

lemma nth_normalized_int:
  "i < length ks \<Longrightarrow>
   as_float (normalize_series (Int64 ks)) ! i =
     fdiv (Fin (of_int (sint (ks ! i - int_min ks))))
          (Fin (of_int (sint (int_max ks - int_min ks))))"
  using normalized_int[of ks] by (cases "ks = []") simp_all

lemma fold_smin:
  "fold smin ks k \<in> set (k # ks) \<and> (\<forall>v\<in>set (k # ks). sint (fold smin ks k) \<le> sint v)"
proof (induction ks arbitrary: k)
  case Nil
  then show ?case by simp
next
  case (Cons a ks)
  from Cons.IH[of "smin a k"]
  have ih: "fold smin ks (smin a k) \<in> set (smin a k # ks)"
    "\<forall>v\<in>set (smin a k # ks). sint (fold smin ks (smin a k)) \<le> sint v" by auto
  have "sint (smin a k) \<le> sint a" "sint (smin a k) \<le> sint k"
    by (auto simp: smin_def)
  with ih(2) have "sint (fold smin ks (smin a k)) \<le> sint a" "sint (fold smin ks (smin a k)) \<le> sint k"
    by force+
  moreover have "smin a k = a \<or> smin a k = k" by (simp add: smin_def)
  ultimately show ?case using ih by auto
qed

lemma fold_smax:
  "fold smax ks k \<in> set (k # ks) \<and> (\<forall>v\<in>set (k # ks). sint v \<le> sint (fold smax ks k))"
proof (induction ks arbitrary: k)
  case Nil
  then show ?case by simp
next
  case (Cons a ks)
  from Cons.IH[of "smax a k"]
  have ih: "fold smax ks (smax a k) \<in> set (smax a k # ks)"
    "\<forall>v\<in>set (smax a k # ks). sint v \<le> sint (fold smax ks (smax a k))" by auto
  have "sint a \<le> sint (smax a k)" "sint k \<le> sint (smax a k)"
    by (auto simp: smax_def)
  with ih(2) have "sint a \<le> sint (fold smax ks (smax a k))" "sint k \<le> sint (fold smax ks (smax a k))"
    by force+
  moreover have "smax a k = a \<or> smax a k = k" by (simp add: smax_def)
  ultimately show ?case using ih by auto
qed

lemma int_min_props:
  assumes "k \<in> set ks"
  shows "int_min ks \<in> set ks" and "sint (int_min ks) \<le> sint k"
  using assms fold_smin[of "tl ks" "hd ks"] by (cases ks; auto)+

lemma int_max_props:
  assumes "k \<in> set ks"
  shows "int_max ks \<in> set ks" and "sint k \<le> sint (int_max ks)"
  using assms fold_smax[of "tl ks" "hd ks"] by (cases ks; auto)+

lemma series_min_int: "ks \<noteq> [] \<Longrightarrow> series_min (Int64 ks) = Fin (of_int (sint (int_min ks)))"
  by (cases ks) (simp_all del: int_min.simps)

lemma series_max_int: "ks \<noteq> [] \<Longrightarrow> series_max (Int64 ks) = Fin (of_int (sint (int_max ks)))"
  by (cases ks) (simp_all del: int_max.simps)

lemma sint_sub_no_wrap:
  fixes a b :: int64
  assumes "0 \<le> sint a - sint b" and "sint a - sint b < 2 ^ 63"
  shows "sint (a - b) = sint a - sint b"
proof -
  have "sint (a - b) = signed_take_bit 63 (sint a - sint b)"
    by (simp add: sint_word_ariths)
  also have "\<dots> = sint a - sint b"
    using assms by (intro signed_take_bit_int_eq_self) simp_all
  finally show ?thesis .
qed

lemma sint_eq_iff: "sint (a :: int64) = sint b \<longleftrightarrow> a = b"
  by (auto intro: signed_word_eqI)

lemma signed_real_le: "(signed (a :: int64) :: real) \<le> signed b \<longleftrightarrow> sint a \<le> sint b"
proof -
  have "(of_int (sint a) :: real) \<le> of_int (sint b) \<longleftrightarrow> sint a \<le> sint b"
    by (rule of_int_le_iff)
  then show ?thesis by simp
qed

lemma signed_real_less: "(signed (a :: int64) :: real) < signed b \<longleftrightarrow> sint a < sint b"
proof -
  have "(of_int (sint a) :: real) < of_int (sint b) \<longleftrightarrow> sint a < sint b"
    by (rule of_int_less_iff)
  then show ?thesis by simp
qed

lemma signed_real_eq: "(signed (a :: int64) :: real) = signed b \<longleftrightarrow> a = b"
proof -
  have "(of_int (sint a) :: real) = of_int (sint b) \<longleftrightarrow> sint a = sint b"
    by (rule of_int_eq_iff)
  then show ?thesis by (simp add: sint_eq_iff)
qed

lemma signed_real_eq_0: "(signed (a :: int64) :: real) = 0 \<longleftrightarrow> a = 0"
  using signed_real_eq[of a 0] by simp

lemma normalize_series_NaN:
  "i < length (as_float s) \<Longrightarrow> isna (as_float s ! i) \<Longrightarrow>
   as_float (normalize_series s) ! i = NaN"
  by (cases s) (simp_all add: nth_div_sub_scalar isna_iff fsub_NaN_left)

lemma normalize_series_range:
  assumes "\<not> range_wraps s" and "i < length (as_float s)"
  shows "as_float (normalize_series s) ! i = NaN \<or>
         (\<exists>x. as_float (normalize_series s) ! i = Fin x \<and> 0 \<le> x \<and> x \<le> 1)"
proof (cases s)
  case (Float64 vs)
  show ?thesis
  proof (cases "isna (vs ! i)")
    case True
    then show ?thesis using assms Float64 by (simp add: nth_div_sub_scalar isna_iff fsub_NaN_left)
  next
    case False
    have "vs ! i \<in> set vs" using assms Float64 by simp
    from float_min_props(2)[OF this False] float_max_props(2)[OF this False]
    show ?thesis using assms Float64 fdiv_fsub_range by (simp add: nth_div_sub_scalar)
  qed
next
  case (Int64 ks)
  let ?m = "int_min ks" and ?M = "int_max ks" and ?k = "ks ! i"
  have i: "i < length ks" using assms Int64 by simp
  then have mem: "?k \<in> set ks" by simp
  note lo = int_min_props(2)[OF mem] and hi = int_max_props(2)[OF mem]
  have nw: "sint ?M - sint ?m < 2 ^ 63" using assms(1) Int64 by simp
  have d1: "sint (?k - ?m) = sint ?k - sint ?m"
    using lo hi nw by (intro sint_sub_no_wrap) simp_all
  have d2: "sint (?M - ?m) = sint ?M - sint ?m"
    using lo hi nw by (intro sint_sub_no_wrap) simp_all
  have nth: "as_float (normalize_series s) ! i =
      fdiv (Fin (of_int (sint ?k - sint ?m))) (Fin (of_int (sint ?M - sint ?m)))"
    using i Int64 by (simp add: nth_normalized_int d1 d2)
  show ?thesis
  proof (cases "sint ?M = sint ?m")
    case True
    with lo hi have "sint ?k = sint ?m" by simp
    with True show ?thesis unfolding nth by simp
  next
    case False
    with lo hi have "sint ?m < sint ?M" by simp
    then have pos: "0 < real_of_int (sint ?M - sint ?m)" by (simp add: signed_real_less)
    have "0 \<le> real_of_int (sint ?k - sint ?m)" using lo by (simp add: signed_real_le)
    moreover have "real_of_int (sint ?k - sint ?m) \<le> real_of_int (sint ?M - sint ?m)"
      using hi by (simp add: signed_real_le)
    ultimately have "0 \<le> real_of_int (sint ?k - sint ?m) / real_of_int (sint ?M - sint ?m)"
      "real_of_int (sint ?k - sint ?m) / real_of_int (sint ?M - sint ?m) \<le> 1"
      using pos by (simp_all add: divide_le_eq_1)
    then show ?thesis unfolding nth using pos by simp
  qed
qed

lemma normalize_series_finite:
  assumes "series_min s = Fin m" and "series_max s = Fin M" and "m < M"
    and "\<not> range_overflows s" and "i < length (as_float s)"
  shows "as_float s ! i = NaN \<and> as_float (normalize_series s) ! i = NaN \<or>
         (\<exists>x. as_float s ! i = Fin x \<and> m \<le> x \<and> x \<le> M \<and>
              isfinite (as_float (normalize_series s) ! i) \<and>
              (x = m \<longrightarrow> as_float (normalize_series s) ! i = Fin 0) \<and>
              (x = M \<longrightarrow> as_float (normalize_series s) ! i = Fin 1))"
proof (cases s)
  case (Float64 vs)
  have mm: "float_min vs = Fin m" "float_max vs = Fin M" using assms(1,2) Float64 by simp_all
  have i: "i < length vs" using assms(5) Float64 by simp
  have T: "M - m < float64_overflow"
    using assms(3,4) Float64 mm by (simp add: overflow_nonneg split: if_splits)
  show ?thesis
  proof (cases "isna (vs ! i)")
    case True
    then show ?thesis using i Float64 by (simp add: nth_div_sub_scalar isna_iff fsub_NaN_left)
  next
    case False
    have "vs ! i \<in> set vs" using i by simp
    from float_min_props(2)[OF this False] float_max_props(2)[OF this False]
    have "fle (Fin m) (vs ! i)" "fle (vs ! i) (Fin M)" using mm by simp_all
    then obtain x where x: "vs ! i = Fin x" "m \<le> x" "x \<le> M"
      by (cases "vs ! i") auto
    have "0 \<le> x - m" "x - m < float64_overflow" "0 \<le> M - m" using x T assms(3) by simp_all
    then have "as_float (normalize_series s) ! i = Fin ((x - m) / (M - m))"
      using i Float64 mm x T assms(3) by (simp add: nth_div_sub_scalar overflow_nonneg)
    then show ?thesis using x Float64 assms(3) by simp
  qed
next
  case (Int64 ks)
  let ?m = "int_min ks" and ?M = "int_max ks" and ?k = "ks ! i"
  have i: "i < length ks" using assms(5) Int64 by simp
  then have ne: "ks \<noteq> []" by auto
  have mm: "m = of_int (sint ?m)" "M = of_int (sint ?M)"
    using assms(1,2) Int64 ne by (simp_all add: series_min_int series_max_int)
  have mem: "?k \<in> set ks" using i by simp
  note lo = int_min_props(2)[OF mem] and hi = int_max_props(2)[OF mem]
  have "?M \<noteq> ?m" using assms(3) mm by auto
  then have D: "sint (?M - ?m) \<noteq> 0" by (simp add: signed_eq_0_iff)
  have nth: "as_float (normalize_series s) ! i =
      Fin (of_int (sint (?k - ?m)) / of_int (sint (?M - ?m)))"
    using i Int64 D by (simp add: nth_normalized_int signed_real_eq_0 signed_eq_0_iff)
  have "as_float s ! i = Fin (of_int (sint ?k))" using i Int64 by simp
  moreover have "m \<le> of_int (sint ?k)" "of_int (sint ?k) \<le> M"
    using lo hi mm by (simp_all add: signed_real_le)
  moreover have "as_float (normalize_series s) ! i = Fin 0" if "real_of_int (sint ?k) = m"
  proof -
    from that mm have "?k = ?m" by (simp add: signed_real_eq)
    then show ?thesis unfolding nth by simp
  qed
  moreover have "as_float (normalize_series s) ! i = Fin 1" if "real_of_int (sint ?k) = M"
  proof -
    from that mm have "?k = ?M" by (simp add: signed_real_eq)
    then show ?thesis unfolding nth using D by (simp add: signed_real_eq_0 signed_eq_0_iff)
  qed
  ultimately show ?thesis using nth by auto
qed

lemma series_min_attained:
  assumes "series_min s = Fin m"
  shows "\<exists>i<length (as_float s). as_float s ! i = Fin m"
proof (cases s)
  case (Float64 vs)
  have "\<exists>v\<in>set vs. \<not> isna v"
    using assms Float64 float_min_NaN[of vs] by auto
  then obtain v where "v \<in> set vs" "\<not> isna v" by auto
  from float_min_props(1)[OF this] assms Float64 show ?thesis
    by (simp add: in_set_conv_nth)
next
  case (Int64 ks)
  with assms have ne: "ks \<noteq> []" by auto
  then have "hd ks \<in> set ks" by simp
  from int_min_props(1)[OF this] obtain i where "i < length ks" "ks ! i = int_min ks"
    by (auto simp: in_set_conv_nth)
  then show ?thesis using assms Int64 ne by (auto simp: series_min_int)
qed

lemma series_max_attained:
  assumes "series_max s = Fin M"
  shows "\<exists>i<length (as_float s). as_float s ! i = Fin M"
proof (cases s)
  case (Float64 vs)
  have "\<exists>v\<in>set vs. \<not> isna v"
    using assms Float64 float_max_NaN[of vs] by auto
  then obtain v where "v \<in> set vs" "\<not> isna v" by auto
  from float_max_props(1)[OF this] assms Float64 show ?thesis
    by (simp add: in_set_conv_nth)
next
  case (Int64 ks)
  with assms have ne: "ks \<noteq> []" by auto
  then have "hd ks \<in> set ks" by simp
  from int_max_props(1)[OF this] obtain i where "i < length ks" "ks ! i = int_max ks"
    by (auto simp: in_set_conv_nth)
  then show ?thesis using assms Int64 ne by (auto simp: series_max_int)
qed

lemma normalize_series_degenerate:
  assumes "series_max s = series_min s" and "i < length (as_float s)"
  shows "as_float (normalize_series s) ! i = NaN"
proof (cases s)
  case (Float64 vs)
  have i: "i < length vs" using assms(2) Float64 by simp
  have eq: "float_max vs = float_min vs" using assms(1) Float64 by simp
  show ?thesis
  proof (cases "isna (vs ! i)")
    case True
    then show ?thesis using i Float64 by (simp add: nth_div_sub_scalar isna_iff fsub_NaN_left)
  next
    case False
    have "vs ! i \<in> set vs" using i by simp
    from float_min_props(2)[OF this False] float_max_props(2)[OF this False]
    have "fle (float_min vs) (vs ! i)" "fle (vs ! i) (float_min vs)" using eq by simp_all
    then have "vs ! i = float_min vs" by (simp add: fle_antisym)
    then show ?thesis using i Float64 eq
      by (simp add: nth_div_sub_scalar fdiv_fsub_same)
  qed
next
  case (Int64 ks)
  let ?m = "int_min ks" and ?M = "int_max ks" and ?k = "ks ! i"
  have i: "i < length ks" using assms(2) Int64 by simp
  then have ne: "ks \<noteq> []" by auto
  have eq: "?M = ?m"
    using assms(1) Int64 ne by (simp add: series_min_int series_max_int signed_real_eq)
  have mem: "?k \<in> set ks" using i by simp
  from int_min_props(2)[OF mem] int_max_props(2)[OF mem] eq
  have "sint ?k = sint ?m" by simp
  then have "?k = ?m" by (simp add: sint_eq_iff)
  then show ?thesis using i Int64 eq by (simp add: nth_normalized_int)
qed

section \<open>Facts about the example frames\<close>

lemma index_frame_of: "index (frame_of names f n) = [0..<n]"
  by (simp add: frame_of_def)

lemma keys_frame_of: "map fst (columns (frame_of names f n)) = names"
  by (simp add: frame_of_def comp_def)

lemma has_columns_frame_of: "set names' \<subseteq> set names \<Longrightarrow> has_columns (frame_of names f n) names'"
  using arg_cong[OF keys_frame_of, of set names f n] by (auto simp: has_columns_def)

lemma wf_frame_of: "distinct names \<Longrightarrow> wf_frame (frame_of names f n)"
  by (simp add: wf_frame_def keys_frame_of index_frame_of) (simp add: frame_of_def list_all_iff)

lemma getitem_frame_of:
  "c \<in> set names \<Longrightarrow> getitem (frame_of names f n) c = Inr (Float64 (map (f c) [0..<n]))"
  by (simp add: getitem_def frame_of_def map_of_named)

lemma col_frame_of: "c \<in> set names \<Longrightarrow> col (frame_of names f n) c = map (f c) [0..<n]"
  by (simp add: col_getitem getitem_frame_of)

section \<open>The Target Synthesizer\<close>

text \<open>
  C1. For a record whose \<open>uptake_vol\<close> is present and whose \<open>pore_volume\<close> is present and
  not zero, cell 2 stores \<open>2 * (0.5 * uptake_vol + 0.5 * (1 / pore_volume))\<close> in \<open>Target\<close>,
  and does not raise when the two columns exist: the value is that expression in the
  arithmetic of the cells, and for finite inputs \<open>a\<close> and \<open>b\<close> it is the finite number
  \<open>2 * (1/2 * a + 1/2 * (1 / b))\<close>.
\<close>

theorem target_synthesizer_formula:
  assumes "getitem data uptake_vol = Inr u" and "getitem data pore_volume = Inr p"
    and "i < length (as_float u)" and "i < length (as_float p)"
    and "\<not> isna (as_float u ! i)" and "\<not> isna (as_float p ! i)" and "as_float p ! i \<noteq> Fin 0"
  shows "\<exists>data1 t. target_synthesizer data = Inr data1 \<and> getitem data1 Target = Inr (Float64 t) \<and>
           t ! i = fmul (Fin 2) (fadd (fmul (Fin (1/2)) (as_float u ! i))
                                      (fmul (Fin (1/2)) (fdiv (Fin 1) (as_float p ! i)))) \<and>
           (\<forall>a b. as_float u ! i = Fin a \<and> as_float p ! i = Fin b \<longrightarrow>
                  t ! i = Fin (2 * (1/2 * a + 1/2 * (1 / b))))"
proof -
  let ?t = "target_series (as_float u) (as_float p)"
  have "target_synthesizer data = Inr (setitem data Target (Float64 ?t))"
    using assms(1,2) by (rule target_synthesizer_Inr)
  moreover have "getitem (setitem data Target (Float64 ?t)) Target = Inr (Float64 ?t)"
    by (simp add: getitem_setitem)
  moreover have eq: "?t ! i = fmul (Fin 2) (fadd (fmul (Fin (1/2)) (as_float u ! i))
                                      (fmul (Fin (1/2)) (fdiv (Fin 1) (as_float p ! i))))"
    using assms(3,4) by (simp add: nth_target_series fmul_commute[of _ "Fin 2"])
  moreover have "?t ! i = Fin (2 * (1/2 * a + 1/2 * (1 / b)))"
    if "as_float u ! i = Fin a \<and> as_float p ! i = Fin b" for a b
    using that assms(7) unfolding eq by simp
  ultimately show ?thesis by blast
qed

theorem target_synthesizer_formula_witness:
  "getitem (frame_of features ramp 3) uptake_vol = Inr (Float64 [Fin 1, Fin 2, Fin 3]) \<and>
   getitem (frame_of features ramp 3) pore_volume = Inr (Float64 [Fin 1, Fin 2, Fin 3]) \<and>
   (\<exists>data1 t. target_synthesizer (frame_of features ramp 3) = Inr data1 \<and>
       getitem data1 Target = Inr (Float64 t) \<and> t ! 1 = Fin (5/2)) \<and>
   getitem (int_small (frame_of features ramp 3)) uptake_vol = Inr (Float64 [Fin 1, Fin 2, Fin 3]) \<and>
   getitem (int_small (frame_of features ramp 3)) ''av_vf'' = Inr (Int64 [10, 20, 40])"
proof -
  have u: "getitem (frame_of features ramp 3) uptake_vol = Inr (Float64 [Fin 1, Fin 2, Fin 3])"
    by code_simp
  have p: "getitem (frame_of features ramp 3) pore_volume = Inr (Float64 [Fin 1, Fin 2, Fin 3])"
    by code_simp
  have e: "getitem (int_small (frame_of features ramp 3)) uptake_vol = Inr (Float64 [Fin 1, Fin 2, Fin 3])"
    "getitem (int_small (frame_of features ramp 3)) ''av_vf'' = Inr (Int64 [10, 20, 40])"
    by code_simp+
  show ?thesis
    using target_synthesizer_formula[OF u p, of 1] u p e by simp
qed

lemma length_col:
  assumes "wf_frame df" and "c \<in> fst ` set (columns df)"
  shows "length (col df c) = length (index df)"
proof -
  have "(c, column df c) \<in> set (columns df)"
    using assms getitem_column[OF assms(2)] by (simp add: getitem_Inr_mem wf_frame_def)
  then show ?thesis using assms(1) by (auto simp: wf_frame_def list_all_iff col_def)
qed

lemma length_feature_col:
  "wf_frame data \<Longrightarrow> has_columns data features \<Longrightarrow> c \<in> set features \<Longrightarrow>
   length (col data c) = length (index data)"
  by (rule length_col) (auto simp: has_columns_def)

lemma set_kept_rows:
  "i \<in> set (kept_rows data) \<longleftrightarrow>
     i < length (index data) \<and>
     \<not> isna (target_series (col data uptake_vol) (col data pore_volume) ! i) \<and>
     (\<forall>c\<in>set features. \<not> isna (normalized data c ! i))"
  by (auto simp: kept_rows_def list_all_iff)

lemma label_kept_iff:
  assumes "wf_frame data" and "i < length (index data)"
  shows "index data ! i \<in> set (map (\<lambda>j. index data ! j) (kept_rows data)) \<longleftrightarrow> i \<in> set (kept_rows data)"
proof
  assume "index data ! i \<in> set (map (\<lambda>j. index data ! j) (kept_rows data))"
  then obtain j where j: "j \<in> set (kept_rows data)" "index data ! i = index data ! j" by auto
  then have "j < length (index data)" by (simp add: set_kept_rows)
  with assms j(2) have "i = j" by (simp add: wf_frame_def nth_eq_iff_index_eq)
  with j(1) show "i \<in> set (kept_rows data)" by simp
qed auto

lemma fadd_NaN_right: "fadd x NaN = NaN"
  by (cases x) simp_all

lemma fmul_NaN_right: "fmul x NaN = NaN"
  by (cases x) simp_all

lemma fdiv_NaN_right: "fdiv x NaN = NaN"
  by (cases x) simp_all

lemma target_value_NaN:
  "isna u \<or> isna p \<Longrightarrow> fmul (fadd (fmul (Fin (1/2)) u) (fmul (Fin (1/2)) (fdiv (Fin 1) p))) (Fin 2) = NaN"
  by (auto simp: isna_iff fadd_NaN_right)

text \<open>
  C2, as the code has it. A record whose \<open>uptake_vol\<close> or \<open>pore_volume\<close> is missing gets a
  missing \<open>Target\<close>, nothing is raised, and the missing-value filter of cell 4 drops the
  record. A record whose \<open>pore_volume\<close> is zero and whose \<open>uptake_vol\<close> is finite gets the
  \<open>Target\<close> \<open>+inf\<close>, which is a number and not a missing value.
\<close>

theorem target_missing_or_infinite:
  assumes "wf_frame data" and "has_columns data features" and "i < length (index data)"
  shows "\<exists>data1 t X y.
           target_synthesizer data = Inr data1 \<and> getitem data1 Target = Inr (Float64 t) \<and>
           fit_matrix data = Inr (X, y) \<and>
           (isna (col data uptake_vol ! i) \<or> isna (col data pore_volume ! i) \<longrightarrow>
              t ! i = NaN \<and> index data ! i \<notin> set (index X)) \<and>
           (col data pore_volume ! i = Fin 0 \<and> isfinite (col data uptake_vol ! i) \<longrightarrow>
              t ! i = PInf)"
proof -
  let ?u = "col data uptake_vol" and ?p = "col data pore_volume"
  let ?t = "target_series ?u ?p"
  have present: "uptake_vol \<in> fst ` set (columns data)" "pore_volume \<in> fst ` set (columns data)"
    using assms(2) uptake_vol_feature pore_volume_feature by (auto simp: has_columns_def)
  have len: "i < length ?u" "i < length ?p"
    using assms by (simp_all add: length_feature_col uptake_vol_feature pore_volume_feature)
  have 1: "target_synthesizer data = Inr (setitem data Target (Float64 ?t))"
    by (rule synthesize_normalize_Inr(1)[OF assms(2)])
  have 2: "getitem (setitem data Target (Float64 ?t)) Target = Inr (Float64 ?t)"
    by (simp add: getitem_setitem)
  note 3 = fit_matrix_Inr[OF assms(2)]
  have nth: "?t ! i = fmul (fadd (fmul (Fin (1/2)) (?u ! i)) (fmul (Fin (1/2)) (fdiv (Fin 1) (?p ! i)))) (Fin 2)"
    using len by (rule nth_target_series)
  have 4: "?t ! i = NaN \<and> index data ! i \<notin> set (map (\<lambda>j. index data ! j) (kept_rows data))"
    if "isna (?u ! i) \<or> isna (?p ! i)"
  proof -
    have "?t ! i = NaN" unfolding nth using that by (rule target_value_NaN)
    then have "i \<notin> set (kept_rows data)" by (simp add: set_kept_rows)
    then show ?thesis using \<open>?t ! i = NaN\<close> label_kept_iff[OF assms(1,3)] by simp
  qed
  have 5: "?t ! i = PInf" if "?p ! i = Fin 0 \<and> isfinite (?u ! i)"
    using that unfolding nth by (cases "?u ! i") simp_all
  show ?thesis
    using 1 2 3 4 5 by (intro exI conjI impI) (assumption | simp)+
qed

theorem target_missing_or_infinite_witness:
  "wf_frame (frame_of features ramp_gap 3) \<and> has_columns (frame_of features ramp_gap 3) features \<and>
   0 < length (index (frame_of features ramp_gap 3)) \<and>
   isna (col (frame_of features ramp_gap 3) pore_volume ! 0) \<and>
   (\<exists>data1 t X y.
      target_synthesizer (frame_of features ramp_gap 3) = Inr data1 \<and>
      getitem data1 Target = Inr (Float64 t) \<and> fit_matrix (frame_of features ramp_gap 3) = Inr (X, y) \<and>
      t ! 0 = NaN \<and> index (frame_of features ramp_gap 3) ! 0 \<notin> set (index X)) \<and>
   col (frame_of features ramp_zero 3) pore_volume ! 0 = Fin 0 \<and>
   isfinite (col (frame_of features ramp_zero 3) uptake_vol ! 0) \<and>
   (\<exists>data1 t.
      target_synthesizer (frame_of features ramp_zero 3) = Inr data1 \<and>
      getitem data1 Target = Inr (Float64 t) \<and> t ! 0 = PInf)"
proof -
  let ?d = "frame_of features ramp_gap 3" and ?z = "frame_of features ramp_zero 3"
  have h: "wf_frame ?d" "has_columns ?d features" "0 < length (index ?d)"
    by (simp_all add: wf_frame_of distinct_features has_columns_frame_of index_frame_of)
  have m: "isna (col ?d pore_volume ! 0)"
    by (simp add: col_frame_of pore_volume_feature ramp_gap_def)
  have k: "wf_frame ?z" "has_columns ?z features" "0 < length (index ?z)"
    by (simp_all add: wf_frame_of distinct_features has_columns_frame_of index_frame_of)
  have z: "col ?z pore_volume ! 0 = Fin 0" "isfinite (col ?z uptake_vol ! 0)"
    by (simp_all add: col_frame_of pore_volume_feature uptake_vol_feature ramp_zero_def
          ramp_def pore_volume_neq)
  have "\<exists>data1 t X y.
      target_synthesizer ?d = Inr data1 \<and> getitem data1 Target = Inr (Float64 t) \<and>
      fit_matrix ?d = Inr (X, y) \<and> t ! 0 = NaN \<and> index ?d ! 0 \<notin> set (index X)"
    using target_missing_or_infinite[OF h] m by auto
  moreover have "\<exists>data1 t. target_synthesizer ?z = Inr data1 \<and> getitem data1 Target = Inr (Float64 t) \<and>
      t ! 0 = PInf"
    using target_missing_or_infinite[OF k] z by auto
  ultimately show ?thesis using h m z by simp
qed

text \<open>
  The claim as the specification states it fails at a record with pore volume zero: its
  \<open>Target\<close> is \<open>+inf\<close> and the record is still in the fit matrix.
\<close>

theorem target_missing_counterexample:
  "col (frame_of features ramp_zero 3) pore_volume ! 0 = Fin 0 \<and>
   getitem (projr (target_synthesizer (frame_of features ramp_zero 3))) Target
     = Inr (Float64 [PInf, Fin 3, Fin (7/2)]) \<and>
   \<not> isl (fit_matrix (frame_of features ramp_zero 3)) \<and>
   snd (projr (fit_matrix (frame_of features ramp_zero 3))) = Float64 [PInf, Fin 3, Fin (7/2)] \<and>
   index (fst (projr (fit_matrix (frame_of features ramp_zero 3)))) = [0, 1, 2]"
  by code_simp

section \<open>The Feature Normalizer\<close>

lemma getitem_feature_normalizer:
  assumes "has_columns data column_names"
  defines "svm \<equiv> data\<lparr>columns := map (\<lambda>c. (c, if c \<noteq> Target then normalize_series (column data c)
                                          else column data c)) column_names\<rparr>"
  shows "feature_normalizer data = Inr svm"
    and "index svm = index data"
    and "map fst (columns svm) = column_names"
    and "c \<in> set column_names \<Longrightarrow>
         getitem svm c = Inr (if c \<noteq> Target then normalize_series (column data c) else column data c)"
proof -
  show "feature_normalizer data = Inr svm"
    unfolding svm_def using assms(1) by (rule feature_normalizer_Inr)
  show "index svm = index data" by (simp add: svm_def)
  show "map fst (columns svm) = column_names" by (simp add: svm_def comp_def)
  show "getitem svm c = Inr (if c \<noteq> Target then normalize_series (column data c) else column data c)"
    if "c \<in> set column_names"
    using that by (simp add: svm_def getitem_def map_of_named)
qed

text \<open>
  C3, as the code has it. After cell 3 every cell of a feature column that is not missing is
  a finite number in \<open>[0, 1]\<close>, unless the column is int64 and its maximum minus its
  minimum wraps around. When the column's minimum and maximum are finite, the maximum is
  larger and, in a float64 column, their difference does not overflow, some record holds
  the minimum and some record holds the maximum, a record holding the minimum gets 0, a
  record holding the maximum gets 1, and no cell that was present becomes missing.
\<close>

theorem normalizer_unit_interval:
  assumes "has_columns data column_names" and "c \<in> set features"
  shows "\<exists>svm_data s'.
           feature_normalizer data = Inr svm_data \<and> getitem svm_data c = Inr (Float64 s') \<and>
           length s' = length (col data c) \<and>
           (\<not> range_wraps (column data c) \<longrightarrow>
              (\<forall>i<length s'. s' ! i = NaN \<or> (\<exists>x. s' ! i = Fin x \<and> 0 \<le> x \<and> x \<le> 1))) \<and>
           (\<forall>m M. series_min (column data c) = Fin m \<and> series_max (column data c) = Fin M \<and>
                  m < M \<and> \<not> range_overflows (column data c) \<longrightarrow>
              (\<exists>i<length s'. col data c ! i = Fin m) \<and>
              (\<exists>i<length s'. col data c ! i = Fin M) \<and>
              (\<forall>i<length s'.
                 (col data c ! i = Fin m \<longrightarrow> s' ! i = Fin 0) \<and>
                 (col data c ! i = Fin M \<longrightarrow> s' ! i = Fin 1) \<and>
                 (\<not> isna (col data c ! i) \<longrightarrow> \<not> isna (s' ! i))))"
proof -
  let ?col = "column data c"
  let ?s = "col data c" and ?s' = "normalized data c"
  from assms(2) have c: "c \<in> set column_names" "c \<noteq> Target"
    by (auto simp: set_features)
  from getitem_feature_normalizer(1)[OF assms(1)] getitem_feature_normalizer(4)[OF assms(1) c(1)] c(2)
  obtain svm where svm: "feature_normalizer data = Inr svm" "getitem svm c = Inr (Float64 ?s')"
    by (auto simp: normalize_column)
  have len: "length ?s' = length ?s"
    unfolding normalized_def col_def by (rule length_normalize_series)
  have range: "\<forall>i<length ?s'. ?s' ! i = NaN \<or> (\<exists>x. ?s' ! i = Fin x \<and> 0 \<le> x \<and> x \<le> 1)"
    if "\<not> range_wraps ?col"
    using normalize_series_range[OF that]
    by (simp add: normalized_def col_def length_normalize_series)
  have ends: "(\<exists>i<length ?s'. ?s ! i = Fin m) \<and> (\<exists>i<length ?s'. ?s ! i = Fin M) \<and>
              (\<forall>i<length ?s'.
                 (?s ! i = Fin m \<longrightarrow> ?s' ! i = Fin 0) \<and>
                 (?s ! i = Fin M \<longrightarrow> ?s' ! i = Fin 1) \<and>
                 (\<not> isna (?s ! i) \<longrightarrow> \<not> isna (?s' ! i)))"
    if h: "series_min ?col = Fin m \<and> series_max ?col = Fin M \<and> m < M \<and> \<not> range_overflows ?col"
    for m M
  proof (intro conjI allI impI)
    show "\<exists>i<length ?s'. ?s ! i = Fin m"
      using h series_min_attained[of ?col m] by (simp add: len col_def)
    show "\<exists>i<length ?s'. ?s ! i = Fin M"
      using h series_max_attained[of ?col M] by (simp add: len col_def)
  next
    fix i assume i: "i < length ?s'"
    then have fin: "?s ! i = NaN \<and> ?s' ! i = NaN \<or>
         (\<exists>x. ?s ! i = Fin x \<and> m \<le> x \<and> x \<le> M \<and> isfinite (?s' ! i) \<and>
              (x = m \<longrightarrow> ?s' ! i = Fin 0) \<and> (x = M \<longrightarrow> ?s' ! i = Fin 1))"
      using h normalize_series_finite[of ?col m M i]
      by (simp add: col_def normalized_def length_normalize_series)
    show "?s' ! i = Fin 0" if "?s ! i = Fin m" using fin that by auto
    show "?s' ! i = Fin 1" if "?s ! i = Fin M" using fin that by auto
    show "\<not> isna (?s' ! i)" if "\<not> isna (?s ! i)" using fin that by (auto simp: isna_iff)
  qed
  show ?thesis
    using svm len range ends by (intro exI[of _ svm] exI[of _ ?s']) blast
qed


lemma has_columns_setitem: "has_columns df names \<Longrightarrow> has_columns (setitem df c s) names"
  by (auto simp: has_columns_def keys_setitem)

theorem normalizer_unit_interval_witness:
  "has_columns (frame_of column_names ramp 3) column_names \<and> ''av_vf'' \<in> set features \<and>
   column (frame_of column_names ramp 3) ''av_vf'' = Float64 [Fin 1, Fin 2, Fin 3] \<and>
   series_min (column (frame_of column_names ramp 3) ''av_vf'') = Fin 1 \<and>
   series_max (column (frame_of column_names ramp 3) ''av_vf'') = Fin 3 \<and>
   \<not> range_overflows (column (frame_of column_names ramp 3) ''av_vf'') \<and>
   \<not> range_wraps (column (frame_of column_names ramp 3) ''av_vf'') \<and>
   (\<exists>svm_data s'. feature_normalizer (frame_of column_names ramp 3) = Inr svm_data \<and>
      getitem svm_data ''av_vf'' = Inr (Float64 s') \<and> length s' = 3 \<and>
      s' ! 0 = Fin 0 \<and> s' ! 2 = Fin 1 \<and> \<not> isna (s' ! 1) \<and>
      (s' ! 1 = NaN \<or> (\<exists>x. s' ! 1 = Fin x \<and> 0 \<le> x \<and> x \<le> 1))) \<and>
   has_columns (int_small (frame_of column_names ramp 3)) column_names \<and>
   column (int_small (frame_of column_names ramp 3)) ''av_vf'' = Int64 [10, 20, 40] \<and>
   series_min (column (int_small (frame_of column_names ramp 3)) ''av_vf'') = Fin 10 \<and>
   series_max (column (int_small (frame_of column_names ramp 3)) ''av_vf'') = Fin 40 \<and>
   \<not> range_wraps (column (int_small (frame_of column_names ramp 3)) ''av_vf'') \<and>
   (\<exists>svm_data s'. feature_normalizer (int_small (frame_of column_names ramp 3)) = Inr svm_data \<and>
      getitem svm_data ''av_vf'' = Inr (Float64 s') \<and> length s' = 3 \<and>
      s' ! 0 = Fin 0 \<and> s' ! 2 = Fin 1 \<and>
      (s' ! 1 = NaN \<or> (\<exists>x. s' ! 1 = Fin x \<and> 0 \<le> x \<and> x \<le> 1)))"
proof -
  let ?d = "frame_of column_names ramp 3" and ?z = "int_small (frame_of column_names ramp 3)"
  let ?P = "\<lambda>d (s' :: cells). \<forall>m M. series_min (column d ''av_vf'') = Fin m \<and>
                  series_max (column d ''av_vf'') = Fin M \<and>
                  m < M \<and> \<not> range_overflows (column d ''av_vf'') \<longrightarrow>
              (\<forall>i<length s'.
                 (col d ''av_vf'' ! i = Fin m \<longrightarrow> s' ! i = Fin 0) \<and>
                 (col d ''av_vf'' ! i = Fin M \<longrightarrow> s' ! i = Fin 1) \<and>
                 (\<not> isna (col d ''av_vf'' ! i) \<longrightarrow> \<not> isna (s' ! i)))"
  let ?Q = "\<lambda>d (s' :: cells). \<not> range_wraps (column d ''av_vf'') \<longrightarrow>
              (\<forall>i<length s'. s' ! i = NaN \<or> (\<exists>x. s' ! i = Fin x \<and> 0 \<le> x \<and> x \<le> 1))"
  have h: "has_columns ?d column_names" "''av_vf'' \<in> set features"
    by (simp_all add: has_columns_frame_of av_vf_feature)
  have k: "has_columns ?z column_names"
    unfolding int_small_def using h(1) by (rule has_columns_setitem)
  have e: "column ?d ''av_vf'' = Float64 [Fin 1, Fin 2, Fin 3]"
    "series_min (column ?d ''av_vf'') = Fin 1" "series_max (column ?d ''av_vf'') = Fin 3"
    "\<not> range_overflows (column ?d ''av_vf'')" "\<not> range_wraps (column ?d ''av_vf'')"
    by code_simp+
  have f: "column ?z ''av_vf'' = Int64 [10, 20, 40]"
    "series_min (column ?z ''av_vf'') = Fin 10" "series_max (column ?z ''av_vf'') = Fin 40"
    "\<not> range_overflows (column ?z ''av_vf'')" "\<not> range_wraps (column ?z ''av_vf'')"
    by code_simp+
  from normalizer_unit_interval[OF h] obtain svm_data s' where
    r: "feature_normalizer ?d = Inr svm_data" "getitem svm_data ''av_vf'' = Inr (Float64 s')"
       "length s' = length (col ?d ''av_vf'')" "?Q ?d s'" "?P ?d s'"
    by blast
  have l: "length s' = 3" using r(3) e(1) by (simp add: col_def)
  from r(5) e(2,3,4) have "\<forall>i<length s'.
                 (col ?d ''av_vf'' ! i = Fin 1 \<longrightarrow> s' ! i = Fin 0) \<and>
                 (col ?d ''av_vf'' ! i = Fin 3 \<longrightarrow> s' ! i = Fin 1) \<and>
                 (\<not> isna (col ?d ''av_vf'' ! i) \<longrightarrow> \<not> isna (s' ! i))"
    by simp
  then have a: "s' ! 0 = Fin 0 \<and> s' ! 2 = Fin 1 \<and> \<not> isna (s' ! 1)"
    using l e(1) by (simp add: col_def)
  from r(4) e(5) l have b: "s' ! 1 = NaN \<or> (\<exists>x. s' ! 1 = Fin x \<and> 0 \<le> x \<and> x \<le> 1)"
    by simp
  from normalizer_unit_interval[OF k h(2)] obtain svm_z t' where
    q: "feature_normalizer ?z = Inr svm_z" "getitem svm_z ''av_vf'' = Inr (Float64 t')"
       "length t' = length (col ?z ''av_vf'')" "?Q ?z t'" "?P ?z t'"
    by blast
  have m: "length t' = 3" using q(3) f(1) by (simp add: col_def)
  from q(5) f(2,3,4) have "\<forall>i<length t'.
                 (col ?z ''av_vf'' ! i = Fin 10 \<longrightarrow> t' ! i = Fin 0) \<and>
                 (col ?z ''av_vf'' ! i = Fin 40 \<longrightarrow> t' ! i = Fin 1) \<and>
                 (\<not> isna (col ?z ''av_vf'' ! i) \<longrightarrow> \<not> isna (t' ! i))"
    by simp
  then have c: "t' ! 0 = Fin 0 \<and> t' ! 2 = Fin 1"
    using m f(1) by (simp add: col_def)
  from q(4) f(5) m have d: "t' ! 1 = NaN \<or> (\<exists>x. t' ! 1 = Fin x \<and> 0 \<le> x \<and> x \<le> 1)"
    by simp
  have 1: "\<exists>svm_data s'. feature_normalizer ?d = Inr svm_data \<and>
      getitem svm_data ''av_vf'' = Inr (Float64 s') \<and> length s' = 3 \<and>
      s' ! 0 = Fin 0 \<and> s' ! 2 = Fin 1 \<and> \<not> isna (s' ! 1) \<and>
      (s' ! 1 = NaN \<or> (\<exists>x. s' ! 1 = Fin x \<and> 0 \<le> x \<and> x \<le> 1))"
    using r(1,2) l a b by blast
  have 2: "\<exists>svm_data s'. feature_normalizer ?z = Inr svm_data \<and>
      getitem svm_data ''av_vf'' = Inr (Float64 s') \<and> length s' = 3 \<and>
      s' ! 0 = Fin 0 \<and> s' ! 2 = Fin 1 \<and>
      (s' ! 1 = NaN \<or> (\<exists>x. s' ! 1 = Fin x \<and> 0 \<le> x \<and> x \<le> 1))"
    using q(1,2) m c d by blast
  show ?thesis
    using h k e f 1 2 by (intro conjI) assumption+
qed

text \<open>
  The claim as the specification states it asks only for a present value and a maximum above
  the minimum. Three columns meet that and break it. In a float64 column holding \<open>+inf\<close> the
  record holding the maximum gets \<open>inf / inf\<close>, a missing value. In the float64 column
  \<open>-1e308, 0, 1e308\<close> the maximum minus the minimum overflows to \<open>+inf\<close> and the record
  holding the maximum gets a missing value again. In the int64 column \<open>-5e18, 0, 5e18\<close> the
  differences wrap and the middle record gets a negative number.
\<close>

theorem normalizer_range_counterexample:
  "column (frame_of column_names ramp_inf 3) ''av_vf'' = Float64 [PInf, Fin 2, Fin 3] \<and>
   series_min (column (frame_of column_names ramp_inf 3) ''av_vf'') = Fin 2 \<and>
   series_max (column (frame_of column_names ramp_inf 3) ''av_vf'') = PInf \<and>
   getitem (projr (feature_normalizer (frame_of column_names ramp_inf 3))) ''av_vf''
     = Inr (Float64 [NaN, Fin 0, Fin 0]) \<and>
   column (frame_of column_names ramp_big 3) ''av_vf''
     = Float64 [Fin (- 100000000000000000000000000000000000000000000000000000000000000000000000000000000000000000000000000000000000000000000000000000000000000000000000000000000000000000000000000000000000000000000000000000000000000000000000000000000000000000000000000000000000000000000000000000000000000000000000000000000000000000000), Fin 0, Fin 100000000000000000000000000000000000000000000000000000000000000000000000000000000000000000000000000000000000000000000000000000000000000000000000000000000000000000000000000000000000000000000000000000000000000000000000000000000000000000000000000000000000000000000000000000000000000000000000000000000000000000000] \<and>
   series_min (column (frame_of column_names ramp_big 3) ''av_vf'') = Fin (- 100000000000000000000000000000000000000000000000000000000000000000000000000000000000000000000000000000000000000000000000000000000000000000000000000000000000000000000000000000000000000000000000000000000000000000000000000000000000000000000000000000000000000000000000000000000000000000000000000000000000000000000) \<and>
   series_max (column (frame_of column_names ramp_big 3) ''av_vf'') = Fin 100000000000000000000000000000000000000000000000000000000000000000000000000000000000000000000000000000000000000000000000000000000000000000000000000000000000000000000000000000000000000000000000000000000000000000000000000000000000000000000000000000000000000000000000000000000000000000000000000000000000000000000 \<and>
   getitem (projr (feature_normalizer (frame_of column_names ramp_big 3))) ''av_vf''
     = Inr (Float64 [Fin 0, Fin 0, NaN]) \<and>
   column (int_void (frame_of column_names ramp 3)) ''av_vf''
     = Int64 [- 5000000000000000000, 0, 5000000000000000000] \<and>
   series_min (column (int_void (frame_of column_names ramp 3)) ''av_vf'')
     = Fin (- 5000000000000000000) \<and>
   series_max (column (int_void (frame_of column_names ramp 3)) ''av_vf'')
     = Fin 5000000000000000000 \<and>
   getitem (projr (feature_normalizer (int_void (frame_of column_names ramp 3)))) ''av_vf''
     = Inr (Float64 [Fin 0, Fin (- (19073486328125 / 32221771521414)), Fin 1])"
  by code_simp

text \<open>
  C9. Cell 3 does not raise when the nineteen columns exist, keeps the row labels and the
  column order, leaves the \<open>Target\<close> series as it was, so every record's \<open>Target\<close> is
  unchanged, and replaces each feature column by its rescaled series.
\<close>

theorem normalizer_preserves_target:
  assumes "has_columns data column_names"
  shows "\<exists>svm_data.
           feature_normalizer data = Inr svm_data \<and> index svm_data = index data \<and>
           map fst (columns svm_data) = column_names \<and>
           getitem svm_data Target = getitem data Target \<and>
           (\<forall>c\<in>set features. getitem svm_data c = Inr (normalize_series (column data c)))"
proof -
  note n = getitem_feature_normalizer[OF assms]
  have "Target \<in> fst ` set (columns data)"
    using assms Target_in_column_names by (auto simp: has_columns_def)
  then have "getitem data Target = Inr (column data Target)" by (rule getitem_column)
  with n(4)[OF Target_in_column_names]
  have t: "getitem (data\<lparr>columns := map (\<lambda>c. (c, if c \<noteq> Target then normalize_series (column data c)
                                          else column data c)) column_names\<rparr>) Target = getitem data Target"
    by simp
  have f: "getitem (data\<lparr>columns := map (\<lambda>c. (c, if c \<noteq> Target then normalize_series (column data c)
                                          else column data c)) column_names\<rparr>) c
      = Inr (normalize_series (column data c))"
    if "c \<in> set features" for c
    using n(4)[of c] that by (auto simp: set_features)
  show ?thesis
    using n(1,2,3) t f by blast
qed

theorem normalizer_preserves_target_witness:
  "has_columns (frame_of column_names ramp 3) column_names \<and>
   getitem (frame_of column_names ramp 3) Target = Inr (Float64 [Fin 1, Fin 2, Fin 3]) \<and>
   (\<exists>svm_data. feature_normalizer (frame_of column_names ramp 3) = Inr svm_data \<and>
      index svm_data = [0, 1, 2] \<and>
      getitem svm_data Target = Inr (Float64 [Fin 1, Fin 2, Fin 3]) \<and>
      getitem svm_data ''av_vf'' = Inr (Float64 [Fin 0, Fin (1/2), Fin 1]))"
proof -
  let ?d = "frame_of column_names ramp 3"
  have h: "has_columns ?d column_names"
    by (simp add: has_columns_frame_of)
  have e: "getitem ?d Target = Inr (Float64 [Fin 1, Fin 2, Fin 3])" "index ?d = [0, 1, 2]"
    "normalize_series (column ?d ''av_vf'') = Float64 [Fin 0, Fin (1/2), Fin 1]"
    by code_simp+
  show ?thesis
    using normalizer_preserves_target[OF h] h e av_vf_feature by auto
qed

section \<open>The Dataset Splitter\<close>

lemma n_test_eq: "nat \<lceil>(1/5) * real n\<rceil> = (n + 4) div 5"
proof -
  have "\<lceil>(1/5) * real n\<rceil> = int ((n + 4) div 5)"
  proof (rule ceiling_unique)
    have "5 * ((n + 4) div 5) < n + 5" by arith
    then have "real (5 * ((n + 4) div 5)) < real (n + 5)"
      by (simp only: of_nat_less_iff)
    then show "of_int (int ((n + 4) div 5)) - 1 < (1/5) * real n" by simp
    have "n \<le> 5 * ((n + 4) div 5)" by arith
    then have "real n \<le> real (5 * ((n + 4) div 5))"
      by (simp only: of_nat_le_iff)
    then show "(1/5) * real n \<le> of_int (int ((n + 4) div 5))" by simp
  qed
  then show ?thesis by simp
qed

lemma n_test_eq': "nat \<lceil>real n / 5\<rceil> = (n + 4) div 5"
  using n_test_eq[of n] by simp

lemma n_test_bound: "\<bar>real ((n + 4) div 5) - (1/5) * real n\<bar> < 1"
proof -
  have "real (nat \<lceil>(1/5) * real n\<rceil>) = of_int \<lceil>(1/5) * real n\<rceil>"
    by (simp add: ceiling_le_zero)
  moreover have "of_int \<lceil>(1/5) * real n\<rceil> - 1 < (1/5) * real n" "(1/5) * real n \<le> of_int \<lceil>(1/5) * real n\<rceil>"
    using ceiling_correct[of "(1/5) * real n"] by simp_all
  ultimately show ?thesis unfolding n_test_eq[symmetric] by linarith
qed

lemma index_take_rows: "index (take_rows X pos) = map (\<lambda>i. index X ! i) pos"
  by (simp add: take_rows_def)

lemma train_test_split_small:
  "length (index X) < 2 \<Longrightarrow>
   train_test_split seed_rng permutation glob X y (1/5) random_state = Inl ValueError"
proof -
  assume "length (index X) < 2"
  then have "length (index X) - (length (index X) + 4) div 5 = 0" by arith
  then show ?thesis
    by (simp add: train_test_split_def Let_def n_test_eq')
qed

lemma train_test_split_seeded:
  assumes "2 \<le> length (index X)"
    and "distinct (fst (permutation (seed_rng seed) (length (index X))))"
    and "set (fst (permutation (seed_rng seed) (length (index X)))) = {0..<length (index X)}"
  shows "train_test_split seed_rng permutation glob X y (1/5) (Some seed) =
     Inr ((take_rows X (drop ((length (index X) + 4) div 5) (fst (permutation (seed_rng seed) (length (index X))))),
           take_rows X (take ((length (index X) + 4) div 5) (fst (permutation (seed_rng seed) (length (index X))))),
           take_series y (drop ((length (index X) + 4) div 5) (fst (permutation (seed_rng seed) (length (index X))))),
           take_series y (take ((length (index X) + 4) div 5) (fst (permutation (seed_rng seed) (length (index X)))))),
          glob)"
proof -
  let ?n = "length (index X)"
  let ?perm = "fst (permutation (seed_rng seed) ?n)"
  let ?k = "(?n + 4) div 5"
  have len: "length ?perm = ?n"
    using distinct_card[OF assms(2)] assms(3) by simp
  have inrange: "\<not> list_ex (\<lambda>i. ?n \<le> i) ?perm"
    using assms(3) by (auto simp: list_ex_iff)
  have pos: "?n - ?k \<noteq> 0" using assms(1) by arith
  have "take (?n - ?k) (drop ?k ?perm) = drop ?k ?perm"
    by (simp add: len)
  then show ?thesis
    using pos inrange
    by (simp add: train_test_split_def Let_def n_test_eq' split_beta)
qed


text \<open>
  With \<open>random_state = None\<close> the outcome of a split depends on the state of the
  process-wide generator.
\<close>

lemma unseeded_split_depends_on_generator:
  "map_sum id fst (train_test_split nat_seed rot_permutation 0 (frame_of features ramp 5)
       (Float64 [Fin 1, Fin 2, Fin 3, Fin 4, Fin 5]) (1/5) None) \<noteq>
   map_sum id fst (train_test_split nat_seed rot_permutation 1 (frame_of features ramp 5)
       (Float64 [Fin 1, Fin 2, Fin 3, Fin 4, Fin 5]) (1/5) None)"
  by code_simp

text \<open>
  C5. The split of cell 5 passes the seed 42, so its outcome, an error or the four subsets,
  is the same whatever state the process-wide generator is in, and the run leaves that state
  as it found it: two runs on the same \<open>X\<close> and \<open>y\<close> give the same training and evaluation
  records. The same holds for cells 2 to 5 run in sequence on the same loaded frame.
\<close>

theorem dataset_splitter_deterministic:
  "map_sum id fst (dataset_splitter seed_rng permutation glob X y) =
     map_sum id fst (dataset_splitter seed_rng permutation glob' X y) \<and>
   map_sum id snd (dataset_splitter seed_rng permutation glob X y) =
     map_sum id (\<lambda>r. glob) (dataset_splitter seed_rng permutation glob X y) \<and>
   map_sum id fst (run_to_split seed_rng permutation glob data) =
     map_sum id fst (run_to_split seed_rng permutation glob' data)"
proof -
  have 1: "map_sum id fst (dataset_splitter seed_rng permutation g X y) =
           map_sum id fst (dataset_splitter seed_rng permutation g' X y)" for g g' X y
    by (simp add: dataset_splitter_def train_test_split_def Let_def)
  have 2: "map_sum id snd (dataset_splitter seed_rng permutation glob X y) =
     map_sum id (\<lambda>r. glob) (dataset_splitter seed_rng permutation glob X y)"
    by (simp add: dataset_splitter_def train_test_split_def Let_def)
  have 3: "map_sum id fst (run_to_split seed_rng permutation glob data) =
     map_sum id fst (run_to_split seed_rng permutation glob' data)"
    using 1 by (simp add: run_to_split_def split: sum.split prod.split)
  show ?thesis using 1 2 3 by blast
qed

lemma distinct_index_fit_matrix:
  assumes "wf_frame data" and "has_columns data features" and "fit_matrix data = Inr (X, y)"
  shows "distinct (index X)"
proof -
  have "inj_on (\<lambda>i. index data ! i) (set (kept_rows data))"
    using assms(1) by (auto simp: inj_on_def set_kept_rows wf_frame_def nth_eq_iff_index_eq)
  moreover have "distinct (kept_rows data)" by (simp add: kept_rows_def)
  ultimately have "distinct (map (\<lambda>i. index data ! i) (kept_rows data))"
    by (simp add: distinct_map)
  then show ?thesis using fit_matrix_Inr[OF assms(2)] assms(3) by auto
qed

text \<open>
  C6. Let the seeded generator return a shuffle of the positions \<open>0..<n\<close> of a frame with
  distinct row labels. A frame of fewer than two records is rejected with a ValueError.
  Otherwise the split returns: the training and the evaluation subset are the rows of \<open>X\<close>
  at two position lists that together hold every position once, their labels are disjoint
  and together are the labels of \<open>X\<close>, and the size of the evaluation subset differs from
  a fifth of the number of records by less than one.
\<close>

theorem dataset_splitter_partition:
  assumes "distinct (index X)"
    and "distinct (fst (permutation (seed_rng 42) (length (index X))))"
    and "set (fst (permutation (seed_rng 42) (length (index X)))) = {0..<length (index X)}"
  shows "(length (index X) < 2 \<longrightarrow>
            dataset_splitter seed_rng permutation glob X y = Inl ValueError) \<and>
         (2 \<le> length (index X) \<longrightarrow>
            (\<exists>X_train X_test y_train y_test glob1 ind_train ind_test.
               dataset_splitter seed_rng permutation glob X y =
                 Inr ((X_train, X_test, y_train, y_test), glob1) \<and>
               X_train = take_rows X ind_train \<and> X_test = take_rows X ind_test \<and>
               y_train = take_series y ind_train \<and> y_test = take_series y ind_test \<and>
               distinct (ind_test @ ind_train) \<and>
               set (ind_test @ ind_train) = {0..<length (index X)} \<and>
               set (index X_train) \<inter> set (index X_test) = {} \<and>
               set (index X_train) \<union> set (index X_test) = set (index X) \<and>
               distinct (index X_train) \<and> distinct (index X_test) \<and>
               length (index X_train) + length (index X_test) = length (index X) \<and>
               \<bar>real (length (index X_test)) - (1/5) * real (length (index X))\<bar> < 1))"
proof (intro conjI impI)
  assume "length (index X) < 2"
  then show "dataset_splitter seed_rng permutation glob X y = Inl ValueError"
    unfolding dataset_splitter_def by (rule train_test_split_small)
next
  let ?n = "length (index X)"
  let ?perm = "fst (permutation (seed_rng 42) ?n)"
  let ?k = "(?n + 4) div 5"
  let ?te = "take ?k ?perm" and ?tr = "drop ?k ?perm"
  let ?lab = "\<lambda>i. index X ! i"
  assume n: "2 \<le> ?n"
  have len: "length ?perm = ?n"
    using distinct_card[OF assms(2)] assms(3) by simp
  have run: "dataset_splitter seed_rng permutation glob X y =
      Inr ((take_rows X ?tr, take_rows X ?te, take_series y ?tr, take_series y ?te), glob)"
    unfolding dataset_splitter_def using n assms(2,3) by (rule train_test_split_seeded)
  have inj: "inj_on ?lab (set ?perm)"
    unfolding assms(3) using assms(1) by (auto simp: inj_on_def nth_eq_iff_index_eq)
  have dl: "distinct (map ?lab ?perm)"
    using assms(2) inj by (simp add: distinct_map)
  have sl: "set (map ?lab ?perm) = set (index X)"
    unfolding set_map assms(3) by (auto simp: set_conv_nth)
  have app: "map ?lab ?perm = map ?lab ?te @ map ?lab ?tr"
    by (simp flip: map_append)
  have k: "?k \<le> ?n" by arith
  have a: "distinct (?te @ ?tr)" "set (?te @ ?tr) = {0..<?n}"
    using assms(2,3) by simp_all
  have b: "set (map ?lab ?tr) \<inter> set (map ?lab ?te) = {}"
     "distinct (map ?lab ?tr)" "distinct (map ?lab ?te)"
    using dl unfolding app by auto
  have c: "set (map ?lab ?tr) \<union> set (map ?lab ?te) = set (index X)"
    using sl unfolding app by auto
  have d: "length (map ?lab ?tr) + length (map ?lab ?te) = ?n"
    using k by (simp add: len)
  have e: "\<bar>real (length (map ?lab ?te)) - (1/5) * real ?n\<bar> < 1"
    using n_test_bound[of ?n] k by (simp add: len min_def)
  show "\<exists>X_train X_test y_train y_test glob1 ind_train ind_test.
               dataset_splitter seed_rng permutation glob X y =
                 Inr ((X_train, X_test, y_train, y_test), glob1) \<and>
               X_train = take_rows X ind_train \<and> X_test = take_rows X ind_test \<and>
               y_train = take_series y ind_train \<and> y_test = take_series y ind_test \<and>
               distinct (ind_test @ ind_train) \<and>
               set (ind_test @ ind_train) = {0..<length (index X)} \<and>
               set (index X_train) \<inter> set (index X_test) = {} \<and>
               set (index X_train) \<union> set (index X_test) = set (index X) \<and>
               distinct (index X_train) \<and> distinct (index X_test) \<and>
               length (index X_train) + length (index X_test) = length (index X) \<and>
               \<bar>real (length (index X_test)) - (1/5) * real (length (index X))\<bar> < 1"
    apply (rule exI[of _ "take_rows X ?tr"], rule exI[of _ "take_rows X ?te"])
    apply (rule exI[of _ "take_series y ?tr"], rule exI[of _ "take_series y ?te"])
    apply (rule exI[of _ glob], rule exI[of _ ?tr], rule exI[of _ ?te])
    unfolding index_take_rows
    using run a b c d e by (intro conjI) (assumption | rule refl)+
qed


theorem dataset_splitter_partition_witness:
  "distinct (index (frame_of features ramp 5)) \<and>
   distinct (fst (rev_permutation (unit_seed 42) (length (index (frame_of features ramp 5))))) \<and>
   set (fst (rev_permutation (unit_seed 42) (length (index (frame_of features ramp 5))))) = {0..<5} \<and>
   2 \<le> length (index (frame_of features ramp 5)) \<and>
   (\<exists>X_train X_test y_train y_test glob1.
      dataset_splitter unit_seed rev_permutation () (frame_of features ramp 5)
          (Float64 [Fin 1, Fin 2, Fin 3, Fin 4, Fin 5]) =
        Inr ((X_train, X_test, y_train, y_test), glob1) \<and>
      set (index X_train) \<inter> set (index X_test) = {} \<and>
      set (index X_train) \<union> set (index X_test) = {0..<5} \<and>
      length (index X_train) = 4 \<and> length (index X_test) = 1) \<and>
   dataset_splitter unit_seed rev_permutation () (frame_of features ramp 1) (Float64 [Fin 1])
     = Inl ValueError"
proof -
  let ?X = "frame_of features ramp 5" and ?S = "frame_of features ramp 1"
  have n: "length (index ?X) = 5" "length (index ?S) = 1" "set (index ?X) = {0..<5}"
    by (simp_all add: index_frame_of)
  have h: "distinct (index ?X)"
    "distinct (fst (rev_permutation (unit_seed 42) (length (index ?X))))"
    "set (fst (rev_permutation (unit_seed 42) (length (index ?X)))) = {0..<length (index ?X)}"
    by (simp_all add: index_frame_of rev_permutation_def unit_seed_def)
  have k: "distinct (index ?S)"
    "distinct (fst (rev_permutation (unit_seed 42) (length (index ?S))))"
    "set (fst (rev_permutation (unit_seed 42) (length (index ?S)))) = {0..<length (index ?S)}"
    by (simp_all add: index_frame_of rev_permutation_def unit_seed_def)
  from dataset_splitter_partition[where X="?X" and permutation=rev_permutation and seed_rng=unit_seed
      and glob="()" and y="Float64 [Fin 1, Fin 2, Fin 3, Fin 4, Fin 5]", OF h] n(1)
  obtain X_train X_test y_train y_test glob1 where
    r: "dataset_splitter unit_seed rev_permutation () ?X (Float64 [Fin 1, Fin 2, Fin 3, Fin 4, Fin 5]) =
         Inr ((X_train, X_test, y_train, y_test), glob1)"
       "set (index X_train) \<inter> set (index X_test) = {}"
       "set (index X_train) \<union> set (index X_test) = set (index ?X)"
       "length (index X_train) + length (index X_test) = length (index ?X)"
       "\<bar>real (length (index X_test)) - (1/5) * real (length (index ?X))\<bar> < 1"
    by auto
  from r(5) have "length (index X_test) = 1" unfolding n(1) by simp
  moreover from this r(4) have "length (index X_train) = 4" unfolding n(1) by simp
  moreover have "dataset_splitter unit_seed rev_permutation () ?S (Float64 [Fin 1]) = Inl ValueError"
    using dataset_splitter_partition[where X="?S" and permutation=rev_permutation and seed_rng=unit_seed
      and glob="()" and y="Float64 [Fin 1]", OF k] n(2) by simp
  ultimately show ?thesis
    using r(1,2,3) h n by auto
qed

section \<open>Cells 2 to 5 in sequence\<close>

lemma dataset_splitter_empty:
  "index X = [] \<Longrightarrow> dataset_splitter seed_rng permutation glob X y = Inl ValueError"
  unfolding dataset_splitter_def by (rule train_test_split_small) simp

text \<open>
  C4, as the code has it. When the maximum of a feature column equals its minimum, cell 3
  does not raise and has no fallback value: every cell of the column becomes missing
  (\<open>0 / 0\<close>). The missing-value filter of cell 4 then drops every record, the fit matrix
  is empty, and the split of cell 5 rejects it with a ValueError, which ends the run.
\<close>

theorem degenerate_column_all_missing:
  assumes "wf_frame data" and "has_columns data features" and "c \<in> set features"
    and "series_max (column data c) = series_min (column data c)"
  shows "\<exists>data1 svm_data s' X y.
           target_synthesizer data = Inr data1 \<and> feature_normalizer data1 = Inr svm_data \<and>
           getitem svm_data c = Inr (Float64 s') \<and> length s' = length (index data) \<and>
           (\<forall>i<length s'. s' ! i = NaN) \<and>
           fit_matrix data = Inr (X, y) \<and> index X = [] \<and> y = Float64 [] \<and>
           run_to_split seed_rng permutation glob data = Inl ValueError"
proof -
  let ?t = "target_series (col data uptake_vol) (col data pore_volume)"
  let ?svm = "\<lparr>index = index data,
               columns = map (\<lambda>c. (c, Float64 (if c \<noteq> Target then normalized data c else ?t)))
                           column_names\<rparr>"
  let ?s' = "normalized data c"
  note sn = synthesize_normalize_Inr[OF assms(2)]
  from assms(3) have c: "c \<in> set column_names" "c \<noteq> Target" by (auto simp: set_features)
  have g: "getitem ?svm c = Inr (Float64 ?s')"
    using c by (simp add: getitem_def map_of_named)
  have len: "length ?s' = length (index data)"
    using assms(1,2,3) length_feature_col[of data c]
    by (simp add: normalized_def length_normalize_series col_def)
  have nan: "\<forall>i<length ?s'. ?s' ! i = NaN"
    using assms(4) by (simp add: normalized_def length_normalize_series normalize_series_degenerate)
  have "kept_rows data = []"
    unfolding kept_rows_def filter_empty_conv list_all_iff
    using nan len assms(3) by (fastforce simp: isna_iff)
  with fit_matrix_Inr[OF assms(2)]
  have fm: "fit_matrix data =
      Inr (\<lparr>index = [], columns = map (\<lambda>c. (c, Float64 [])) features\<rparr>, Float64 [])"
    by simp
  then have "run_to_split seed_rng permutation glob data = Inl ValueError"
    by (simp add: run_to_split_def dataset_splitter_empty)
  with sn g len nan fm show ?thesis by (intro exI conjI) (assumption | simp)+
qed

theorem degenerate_column_all_missing_witness:
  "wf_frame (frame_of features ramp_const 5) \<and> has_columns (frame_of features ramp_const 5) features \<and>
   ''cell_angle_alpha'' \<in> set features \<and>
   series_max (column (frame_of features ramp_const 5) ''cell_angle_alpha'') =
     series_min (column (frame_of features ramp_const 5) ''cell_angle_alpha'') \<and>
   (\<exists>data1 svm_data s'.
      target_synthesizer (frame_of features ramp_const 5) = Inr data1 \<and>
      feature_normalizer data1 = Inr svm_data \<and>
      getitem svm_data ''cell_angle_alpha'' = Inr (Float64 s') \<and> length s' = 5 \<and> s' ! 0 = NaN) \<and>
   run_to_split unit_seed rev_permutation () (frame_of features ramp_const 5) = Inl ValueError"
proof -
  let ?d = "frame_of features ramp_const 5"
  have h: "wf_frame ?d" "has_columns ?d features" "''cell_angle_alpha'' \<in> set features"
    by (simp_all add: wf_frame_of distinct_features has_columns_frame_of alpha_feature)
  have e: "series_max (column ?d ''cell_angle_alpha'') = series_min (column ?d ''cell_angle_alpha'')"
    by code_simp
  have n: "length (index ?d) = 5" by (simp add: index_frame_of)
  from degenerate_column_all_missing[OF h e, of unit_seed rev_permutation "()"]
  obtain data1 svm_data s' where
    r: "target_synthesizer ?d = Inr data1" "feature_normalizer data1 = Inr svm_data"
       "getitem svm_data ''cell_angle_alpha'' = Inr (Float64 s')" "length s' = length (index ?d)"
       "\<forall>i<length s'. s' ! i = NaN"
       "run_to_split unit_seed rev_permutation () ?d = Inl ValueError"
    by blast
  from r(4,5) n have "length s' = 5" "s' ! 0 = NaN" by simp_all
  with r(1,2,3,6) h e show ?thesis by blast
qed

text \<open>
  The claim as the specification states it fails on five complete records whose cell angle
  alpha is 90 throughout: the column becomes missing in every record and the run ends in a
  ValueError.
\<close>

theorem degenerate_column_counterexample:
  "col (frame_of features ramp_const 5) ''cell_angle_alpha''
     = [Fin 90, Fin 90, Fin 90, Fin 90, Fin 90] \<and>
   series_min (column (frame_of features ramp_const 5) ''cell_angle_alpha'') = Fin 90 \<and>
   series_max (column (frame_of features ramp_const 5) ''cell_angle_alpha'') = Fin 90 \<and>
   getitem (projr (feature_normalizer (projr (target_synthesizer (frame_of features ramp_const 5)))))
       ''cell_angle_alpha'' = Inr (Float64 [NaN, NaN, NaN, NaN, NaN]) \<and>
   \<not> isl (fit_matrix (frame_of features ramp_const 5)) \<and>
   index (fst (projr (fit_matrix (frame_of features ramp_const 5)))) = [] \<and>
   run_to_split unit_seed rev_permutation () (frame_of features ramp_const 5) = Inl ValueError"
  by code_simp

section \<open>The fit matrix\<close>

lemma has_range_iff:
  "has_range s \<longleftrightarrow>
     (\<exists>m M. series_min s = Fin m \<and> series_max s = Fin M \<and> m < M \<and> \<not> range_overflows s)"
  by (auto simp: has_range_def split: float64.splits)

lemma has_range_cell:
  assumes "has_range s" and "i < length (as_float s)" and "\<not> isna (as_float s ! i)"
  shows "isfinite (as_float s ! i)" and "isfinite (as_float (normalize_series s) ! i)"
proof -
  from assms(1) obtain m M where
    "series_min s = Fin m" "series_max s = Fin M" "m < M" "\<not> range_overflows s"
    by (auto simp: has_range_iff)
  from normalize_series_finite[OF this assms(2)] assms(3)
  show "isfinite (as_float s ! i)" "isfinite (as_float (normalize_series s) ! i)" by auto
qed

lemma target_value_present:
  "isfinite u \<Longrightarrow> isfinite p \<Longrightarrow>
   \<not> isna (fmul (fadd (fmul (Fin (1/2)) u) (fmul (Fin (1/2)) (fdiv (Fin 1) p))) (Fin 2))"
  by (cases u; cases p) simp_all

lemma length_filter_neq:
  "i0 < n \<Longrightarrow> length (filter (\<lambda>i. i \<noteq> i0) [0..<n]) = n - 1"
proof -
  assume "i0 < n"
  have "{i. i < length [0..<n] \<and> [0..<n] ! i \<noteq> i0} = {..<n} - {i0}" by auto
  then have "card {i. i < length [0..<n] \<and> [0..<n] ! i \<noteq> i0} = n - 1"
    using \<open>i0 < n\<close> by simp
  then show ?thesis by (simp only: length_filter_conv_card)
qed

lemma col_fit_matrix:
  "c \<in> set features \<Longrightarrow>
   col \<lparr>index = ix, columns = map (\<lambda>c. (c, Float64 (g c))) features\<rparr> c = g c"
  by (simp add: col_def column_def getitem_def map_of_named)

lemma getitem_fit_matrix:
  "c \<in> set features \<Longrightarrow>
   getitem \<lparr>index = ix, columns = map (\<lambda>c. (c, Float64 (g c))) features\<rparr> c = Inr (Float64 (g c))"
  by (simp add: getitem_def map_of_named)

text \<open>
  C7, as the code has it. Cells 2 to 4 do not raise on a well-formed frame that has the
  feature columns, and the \<open>X\<close> and \<open>y\<close> they hand to the split hold no missing cell. A
  record whose synthesized \<open>Target\<close> or whose cell in some feature column is missing is not
  among them. When every feature column has a finite minimum and a larger finite maximum
  whose float64 difference is finite, one record has a missing \<open>pore_volume\<close> and no other
  record has a missing cell, exactly that record is dropped: of five records, four reach
  the fit matrix.
\<close>

theorem fit_matrix_fully_populated:
  assumes "wf_frame data" and "has_columns data features"
  shows "\<exists>X y.
           fit_matrix data = Inr (X, y) \<and>
           map fst (columns X) = features \<and> length (as_float y) = length (index X) \<and>
           (\<forall>c\<in>set features.
              length (col X c) = length (index X) \<and> (\<forall>v\<in>set (col X c). \<not> isna v)) \<and>
           (\<forall>v\<in>set (as_float y). \<not> isna v) \<and>
           (\<forall>i<length (index data).
              isna (target_series (col data uptake_vol) (col data pore_volume) ! i) \<or>
              (\<exists>c\<in>set features. isna (col data c ! i)) \<longrightarrow>
              index data ! i \<notin> set (index X)) \<and>
           (\<forall>i0<length (index data).
              (\<forall>c\<in>set features. has_range (column data c)) \<and>
              isna (col data pore_volume ! i0) \<and>
              (\<forall>i<length (index data). i \<noteq> i0 \<longrightarrow> (\<forall>c\<in>set features. \<not> isna (col data c ! i))) \<longrightarrow>
              index X = map (\<lambda>i. index data ! i) (filter (\<lambda>i. i \<noteq> i0) [0..<length (index data)]) \<and>
              length (index X) = length (index data) - 1 \<and>
              (length (index data) = 5 \<longrightarrow> length (index X) = 4))"
proof -
  let ?n = "length (index data)"
  let ?u = "col data uptake_vol" and ?p = "col data pore_volume"
  let ?t = "target_series ?u ?p"
  let ?N = "\<lambda>c. normalized data c"
  let ?K = "kept_rows data"
  let ?X = "\<lparr>index = map (\<lambda>i. index data ! i) ?K,
             columns = map (\<lambda>c. (c, Float64 (map (\<lambda>i. ?N c ! i) ?K))) features\<rparr>"
  let ?y = "Float64 (map (\<lambda>i. ?t ! i) ?K)"
  note fm = fit_matrix_Inr[OF assms(2)]
  have len: "length (col data c) = ?n" if "c \<in> set features" for c
    using assms that by (rule length_feature_col)
  have tnth: "?t ! i = fmul (fadd (fmul (Fin (1/2)) (?u ! i)) (fmul (Fin (1/2)) (fdiv (Fin 1) (?p ! i)))) (Fin 2)"
    if "i < ?n" for i
    using that by (simp add: nth_target_series len uptake_vol_feature pore_volume_feature)
  have 1: "map fst (columns ?X) = features" by (simp add: comp_def)
  have 2: "length (as_float ?y) = length (index ?X)" by simp
  have 3: "\<forall>c\<in>set features. length (col ?X c) = length (index ?X) \<and> (\<forall>v\<in>set (col ?X c). \<not> isna v)"
    by (auto simp: col_fit_matrix set_kept_rows)
  have 4: "\<forall>v\<in>set (as_float ?y). \<not> isna v"
    by (auto simp: set_kept_rows)
  have 5: "index data ! i \<notin> set (index ?X)"
    if i: "i < ?n" and m: "isna (?t ! i) \<or> (\<exists>c\<in>set features. isna (col data c ! i))" for i
  proof -
    have "i \<notin> set ?K"
    proof (cases "isna (?t ! i)")
      case True
      then show ?thesis by (simp add: set_kept_rows)
    next
      case False
      with m obtain c where c: "c \<in> set features" "isna (col data c ! i)" by auto
      then have "isna (?N c ! i)"
        using i len[OF c(1)] normalize_series_NaN[of i "column data c"]
        by (simp add: col_def normalized_def)
      with c(1) show ?thesis by (auto simp: set_kept_rows)
    qed
    then show ?thesis using label_kept_iff[OF assms(1) i] by simp
  qed
  have 6: "index ?X = map (\<lambda>i. index data ! i) (filter (\<lambda>i. i \<noteq> i0) [0..<?n]) \<and>
           length (index ?X) = ?n - 1 \<and> (?n = 5 \<longrightarrow> length (index ?X) = 4)"
    if i0: "i0 < ?n"
      and h: "(\<forall>c\<in>set features. has_range (column data c)) \<and> isna (?p ! i0) \<and>
              (\<forall>i<?n. i \<noteq> i0 \<longrightarrow> (\<forall>c\<in>set features. \<not> isna (col data c ! i)))" for i0
  proof -
    have keep: "\<not> isna (?t ! i) \<and> list_all (\<lambda>c. \<not> isna (?N c ! i)) features \<longleftrightarrow> i \<noteq> i0"
      if i: "i \<in> set [0..<?n]" for i
    proof (cases "i = i0")
      case True
      have "?t ! i0 = NaN"
        using h i0 by (simp add: tnth target_value_NaN)
      with True show ?thesis by simp
    next
      case False
      from i have i': "i < ?n" by simp
      have cell: "isfinite (col data c ! i) \<and> isfinite (?N c ! i)" if "c \<in> set features" for c
        using has_range_cell[of "column data c" i] h that i' False len[OF that]
        by (simp add: col_def normalized_def)
      then have "isfinite (?u ! i)" "isfinite (?p ! i)"
        using uptake_vol_feature pore_volume_feature by auto
      then have "\<not> isna (?t ! i)"
        using i' by (simp add: tnth target_value_present)
      moreover have "\<not> isna (?N c ! i)" if "c \<in> set features" for c
        using cell[OF that] by (cases "?N c ! i") simp_all
      ultimately show ?thesis using False by (simp add: list_all_iff)
    qed
    have K: "?K = filter (\<lambda>i. i \<noteq> i0) [0..<?n]"
      unfolding kept_rows_def using keep by (intro filter_cong refl) blast
    have "length ?K = ?n - 1" unfolding K using i0 by (rule length_filter_neq)
    then have b: "length (index ?X) = ?n - 1" by simp
    then have c: "?n = 5 \<longrightarrow> length (index ?X) = 4" by simp
    have a: "index ?X = map (\<lambda>i. index data ! i) (filter (\<lambda>i. i \<noteq> i0) [0..<?n])"
      using K by simp
    show ?thesis using a b c by blast
  qed
  show ?thesis
    apply (rule exI[of _ ?X], rule exI[of _ ?y])
    using fm 1 2 3 4 5 6 by (intro conjI allI impI) (assumption | blast)+
qed

theorem fit_matrix_fully_populated_witness:
  "wf_frame (frame_of features ramp_gap 5) \<and> has_columns (frame_of features ramp_gap 5) features \<and>
   length (index (frame_of features ramp_gap 5)) = 5 \<and>
   list_all (\<lambda>c. has_range (column (frame_of features ramp_gap 5) c)) features \<and>
   isna (col (frame_of features ramp_gap 5) pore_volume ! 0) \<and>
   list_all (\<lambda>i. list_all (\<lambda>c. \<not> isna (col (frame_of features ramp_gap 5) c ! i)) features)
     [1, 2, 3, 4] \<and>
   (\<exists>X y. fit_matrix (frame_of features ramp_gap 5) = Inr (X, y) \<and>
      index X = [1, 2, 3, 4] \<and> length (index X) = 4 \<and> length (as_float y) = 4 \<and>
      list_all (\<lambda>v. \<not> isna v) (as_float y) \<and>
      list_all (\<lambda>c. list_all (\<lambda>v. \<not> isna v) (col X c)) features)"
proof -
  let ?d = "frame_of features ramp_gap 5"
  have h: "wf_frame ?d" "has_columns ?d features"
    by (simp_all add: wf_frame_of distinct_features has_columns_frame_of)
  have n: "length (index ?d) = 5" by (simp add: index_frame_of)
  have e: "list_all (\<lambda>c. has_range (column ?d c)) features"
    "isna (col ?d pore_volume ! 0)"
    "list_all (\<lambda>i. list_all (\<lambda>c. \<not> isna (col ?d c ! i)) features) [1, 2, 3, 4]"
    "map (\<lambda>i. index ?d ! i) (filter (\<lambda>i. i \<noteq> 0) [0..<5]) = [1, 2, 3, 4]"
    by code_simp+
  have rest: "\<forall>i<length (index ?d). i \<noteq> 0 \<longrightarrow> (\<forall>c\<in>set features. \<not> isna (col ?d c ! i))"
  proof (intro allI impI)
    fix i assume "i < length (index ?d)" "i \<noteq> 0"
    then have "i \<in> set [1, 2, 3, 4]" unfolding n by auto
    with e(3) show "\<forall>c\<in>set features. \<not> isna (col ?d c ! i)"
      unfolding list_all_iff by blast
  qed
  from fit_matrix_fully_populated[OF h] obtain X y where
    r: "fit_matrix ?d = Inr (X, y)" "length (as_float y) = length (index X)"
       "\<forall>c\<in>set features. length (col X c) = length (index X) \<and> (\<forall>v\<in>set (col X c). \<not> isna v)"
       "\<forall>v\<in>set (as_float y). \<not> isna v"
       "\<forall>i0<length (index ?d).
              (\<forall>c\<in>set features. has_range (column ?d c)) \<and>
              isna (col ?d pore_volume ! i0) \<and>
              (\<forall>i<length (index ?d). i \<noteq> i0 \<longrightarrow> (\<forall>c\<in>set features. \<not> isna (col ?d c ! i))) \<longrightarrow>
              index X = map (\<lambda>i. index ?d ! i) (filter (\<lambda>i. i \<noteq> i0) [0..<length (index ?d)]) \<and>
              length (index X) = length (index ?d) - 1 \<and>
              (length (index ?d) = 5 \<longrightarrow> length (index X) = 4)"
    by blast
  have "0 < length (index ?d)" using n by simp
  with r(5) e(1,2) rest
  have "index X = map (\<lambda>i. index ?d ! i) (filter (\<lambda>i. i \<noteq> 0) [0..<length (index ?d)])"
    "length (index ?d) = 5 \<longrightarrow> length (index X) = 4"
    unfolding list_all_iff by blast+
  with n e(4) have x: "index X = [1, 2, 3, 4]" "length (index X) = 4" by simp_all
  with r(2) have "length (as_float y) = 4" by simp
  moreover have "list_all (\<lambda>v. \<not> isna v) (as_float y)"
    "list_all (\<lambda>c. list_all (\<lambda>v. \<not> isna v) (col X c)) features"
    using r(3,4) unfolding list_all_iff by blast+
  ultimately show ?thesis using r(1) x h n e(1,2,3) by blast
qed

text \<open>
  The claim as the specification states it fails on five records of which one has a missing
  \<open>pore_volume\<close> and every other cell is a finite number. When the cell angle alpha is 90
  in all five, no record reaches the fit matrix. When the void fractions are
  \<open>0, -1e308, 0, 0, 1e308\<close>, their range overflows, the record holding the maximum gets a
  missing value and three records reach the fit matrix.
\<close>

theorem five_records_counterexample:
  "length (index (frame_of features ramp_flat 5)) = 5 \<and>
   isna (col (frame_of features ramp_flat 5) pore_volume ! 0) \<and>
   list_all (\<lambda>c. isfinite (col (frame_of features ramp_flat 5) c ! 0))
     (filter (\<lambda>c. c \<noteq> pore_volume) features) \<and>
   list_all (\<lambda>i. list_all (\<lambda>c. isfinite (col (frame_of features ramp_flat 5) c ! i)) features)
     [1, 2, 3, 4] \<and>
   \<not> isl (fit_matrix (frame_of features ramp_flat 5)) \<and>
   index (fst (projr (fit_matrix (frame_of features ramp_flat 5)))) = [] \<and>
   length (index (frame_of features ramp_gap_big 5)) = 5 \<and>
   isna (col (frame_of features ramp_gap_big 5) pore_volume ! 0) \<and>
   list_all (\<lambda>c. isfinite (col (frame_of features ramp_gap_big 5) c ! 0))
     (filter (\<lambda>c. c \<noteq> pore_volume) features) \<and>
   list_all (\<lambda>i. list_all (\<lambda>c. isfinite (col (frame_of features ramp_gap_big 5) c ! i)) features)
     [1, 2, 3, 4] \<and>
   col (frame_of features ramp_gap_big 5) ''av_vf''
     = [Fin 0, Fin (- 100000000000000000000000000000000000000000000000000000000000000000000000000000000000000000000000000000000000000000000000000000000000000000000000000000000000000000000000000000000000000000000000000000000000000000000000000000000000000000000000000000000000000000000000000000000000000000000000000000000000000000000), Fin 0, Fin 0, Fin 100000000000000000000000000000000000000000000000000000000000000000000000000000000000000000000000000000000000000000000000000000000000000000000000000000000000000000000000000000000000000000000000000000000000000000000000000000000000000000000000000000000000000000000000000000000000000000000000000000000000000000000] \<and>
   \<not> isl (fit_matrix (frame_of features ramp_gap_big 5)) \<and>
   index (fst (projr (fit_matrix (frame_of features ramp_gap_big 5)))) = [1, 2, 3]"
  by code_simp

text \<open>
  C10, as the code has it. The cells of a feature column of the fit matrix are the cells of
  the loaded frame at the positions that survive the filter, each rescaled with the minimum
  and the maximum of the whole column of the loaded frame, rows that are dropped later
  included. Every one of them is a finite number in \<open>[0, 1]\<close>, unless the column is int64
  and its maximum minus its minimum wraps around. The values 0 and 1 need not occur: in the
  example frame the void fractions 1, 2, 3, 4 leave \<open>1/3\<close> and \<open>2/3\<close> in the fit matrix, the
  rows holding the extremes being dropped for their missing pore volume.
\<close>

theorem extremes_before_filtering:
  assumes "wf_frame data" and "has_columns data features"
  shows "(\<exists>X y keep.
            fit_matrix data = Inr (X, y) \<and>
            index X = map (\<lambda>i. index data ! i) keep \<and>
            set keep \<subseteq> {0..<length (index data)} \<and>
            (\<forall>c\<in>set features.
               getitem X c =
                 Inr (Float64 (map (\<lambda>i. as_float (normalize_series (column data c)) ! i) keep)) \<and>
               (\<not> range_wraps (column data c) \<longrightarrow>
                  (\<forall>v\<in>set (col X c). \<exists>x. v = Fin x \<and> 0 \<le> x \<and> x \<le> 1)))) \<and>
         col (fst (projr (fit_matrix (frame_of features ramp_ends 4)))) ''av_vf''
           = [Fin (1/3), Fin (2/3)] \<and>
         Fin 0 \<notin> set (col (fst (projr (fit_matrix (frame_of features ramp_ends 4)))) ''av_vf'') \<and>
         Fin 1 \<notin> set (col (fst (projr (fit_matrix (frame_of features ramp_ends 4)))) ''av_vf'')"
proof -
  let ?n = "length (index data)"
  let ?N = "\<lambda>c. as_float (normalize_series (column data c))"
  let ?K = "kept_rows data"
  let ?X = "\<lparr>index = map (\<lambda>i. index data ! i) ?K,
             columns = map (\<lambda>c. (c, Float64 (map (\<lambda>i. ?N c ! i) ?K))) features\<rparr>"
  have fm: "fit_matrix data =
     Inr (?X, Float64 (map (\<lambda>i. target_series (col data uptake_vol) (col data pore_volume) ! i) ?K))"
    using fit_matrix_Inr[OF assms(2)] by (simp add: normalized_def)
  have len: "length (col data c) = ?n" if "c \<in> set features" for c
    using assms that by (rule length_feature_col)
  have sub: "set ?K \<subseteq> {0..<?n}" by (auto simp: set_kept_rows)
  have cols: "getitem ?X c = Inr (Float64 (map (\<lambda>i. ?N c ! i) ?K)) \<and>
       (\<not> range_wraps (column data c) \<longrightarrow>
          (\<forall>v\<in>set (col ?X c). \<exists>x. v = Fin x \<and> 0 \<le> x \<and> x \<le> 1))"
    if c: "c \<in> set features" for c
  proof (intro conjI impI ballI)
    show "getitem ?X c = Inr (Float64 (map (\<lambda>i. ?N c ! i) ?K))"
      using c by (rule getitem_fit_matrix)
  next
    fix v assume nw: "\<not> range_wraps (column data c)" and "v \<in> set (col ?X c)"
    then obtain i where i: "i \<in> set ?K" "v = ?N c ! i"
      using c by (auto simp: col_fit_matrix)
    then have "i < length (as_float (column data c))" "\<not> isna (?N c ! i)"
      using c len[OF c] by (auto simp: set_kept_rows col_def normalized_def)
    with normalize_series_range[OF nw, of i] i(2)
    show "\<exists>x. v = Fin x \<and> 0 \<le> x \<and> x \<le> 1" by auto
  qed
  have general: "\<exists>X y keep.
            fit_matrix data = Inr (X, y) \<and>
            index X = map (\<lambda>i. index data ! i) keep \<and>
            set keep \<subseteq> {0..<length (index data)} \<and>
            (\<forall>c\<in>set features.
               getitem X c =
                 Inr (Float64 (map (\<lambda>i. as_float (normalize_series (column data c)) ! i) keep)) \<and>
               (\<not> range_wraps (column data c) \<longrightarrow>
                  (\<forall>v\<in>set (col X c). \<exists>x. v = Fin x \<and> 0 \<le> x \<and> x \<le> 1)))"
    apply (rule exI[of _ ?X], rule exI, rule exI[of _ ?K])
    using fm sub cols by (intro conjI ballI) (assumption | simp)+
  have example: "col (fst (projr (fit_matrix (frame_of features ramp_ends 4)))) ''av_vf''
           = [Fin (1/3), Fin (2/3)]"
    by code_simp
  show ?thesis
    using general unfolding example by simp
qed

theorem extremes_before_filtering_witness:
  "wf_frame (frame_of features ramp_ends 4) \<and> has_columns (frame_of features ramp_ends 4) features \<and>
   col (frame_of features ramp_ends 4) ''av_vf'' = [Fin 1, Fin 2, Fin 3, Fin 4] \<and>
   series_min (column (frame_of features ramp_ends 4) ''av_vf'') = Fin 1 \<and>
   series_max (column (frame_of features ramp_ends 4) ''av_vf'') = Fin 4 \<and>
   list_all (\<lambda>c. \<not> range_wraps (column (frame_of features ramp_ends 4) c)) features \<and>
   (\<exists>X y. fit_matrix (frame_of features ramp_ends 4) = Inr (X, y) \<and>
      index X = [1, 2] \<and> col X ''av_vf'' = [Fin (1/3), Fin (2/3)] \<and>
      list_all (\<lambda>c. list_all (\<lambda>v. fle (Fin 0) v \<and> fle v (Fin 1)) (col X c)) features)"
proof -
  let ?d = "frame_of features ramp_ends 4"
  have h: "wf_frame ?d" "has_columns ?d features"
    by (simp_all add: wf_frame_of distinct_features has_columns_frame_of)
  have e: "col ?d ''av_vf'' = [Fin 1, Fin 2, Fin 3, Fin 4]"
    "series_min (column ?d ''av_vf'') = Fin 1" "series_max (column ?d ''av_vf'') = Fin 4"
    "index (fst (projr (fit_matrix ?d))) = [1, 2]"
    "list_all (\<lambda>c. \<not> range_wraps (column ?d c)) features"
    by code_simp+
  from extremes_before_filtering[OF h] obtain X y where
    r: "fit_matrix ?d = Inr (X, y)"
       "\<forall>c\<in>set features. \<not> range_wraps (column ?d c) \<longrightarrow>
          (\<forall>v\<in>set (col X c). \<exists>x. v = Fin x \<and> 0 \<le> x \<and> x \<le> 1)"
       "col (fst (projr (fit_matrix ?d))) ''av_vf'' = [Fin (1/3), Fin (2/3)]"
    by blast
  from r(1) have X: "fst (projr (fit_matrix ?d)) = X" by simp
  have "list_all (\<lambda>c. list_all (\<lambda>v. fle (Fin 0) v \<and> fle v (Fin 1)) (col X c)) features"
    unfolding list_all_iff using r(2) e(5)[unfolded list_all_iff] by fastforce
  with r(1) r(3) e X h show ?thesis by auto
qed

text \<open>
  The claim as stated fails on a frame whose void fractions are the int64 numbers
  \<open>-5e18, 0, 5e18\<close>: the differences wrap, no record is dropped, and the fit matrix holds a
  negative void fraction.
\<close>

theorem extremes_wrap_counterexample:
  "wf_frame (int_void (frame_of features ramp 3)) \<and>
   has_columns (int_void (frame_of features ramp 3)) features \<and>
   column (int_void (frame_of features ramp 3)) ''av_vf''
     = Int64 [- 5000000000000000000, 0, 5000000000000000000] \<and>
   \<not> isl (fit_matrix (int_void (frame_of features ramp 3))) \<and>
   index (fst (projr (fit_matrix (int_void (frame_of features ramp 3))))) = [0, 1, 2] \<and>
   col (fst (projr (fit_matrix (int_void (frame_of features ramp 3))))) ''av_vf''
     = [Fin 0, Fin (- (19073486328125 / 32221771521414)), Fin 1]"
  by code_simp

section \<open>The Regression Fitter\<close>

lemma dot_Nil [simp]: "dot [] v = 0" "dot u [] = 0"
  by (simp_all add: dot_def)

lemma dot_Cons [simp]: "dot (a # u) (b # v) = a * b + dot u v"
  by (simp add: dot_def)

lemma dot_eliminate:
  "length bs = length as \<Longrightarrow> length as = length theta \<Longrightarrow>
   dot (map (\<lambda>(b', a'). b' - c * a') (zip bs as)) theta = dot bs theta - c * dot as theta"
proof (induction bs as theta rule: list_induct3)
  case Nil
  show ?case by simp
next
  case (Cons b bs a as t theta)
  then show ?case by (simp add: algebra_simps)
qed

lemma dot_sum:
  "length u = k \<Longrightarrow> length v = k \<Longrightarrow> dot u v = (\<Sum>l<k. u ! l * v ! l)"
proof (induction u arbitrary: v k)
  case Nil
  then show ?case by simp
next
  case (Cons a u)
  then obtain b v' where v: "v = b # v'" by (cases v) auto
  from Cons.prems obtain k' where k: "k = Suc k'" by (cases k) auto
  from Cons.prems v k have "dot u v' = (\<Sum>l<k'. u ! l * v' ! l)"
    by (intro Cons.IH) auto
  then show ?case
    unfolding v k by (simp only: sum.lessThan_Suc_shift dot_Cons nth_Cons_0 nth_Cons_Suc)
qed

lemma sum_list_nth:
  fixes f :: "'a \<Rightarrow> real"
  shows "sum_list (map f xs) = (\<Sum>i<length xs. f (xs ! i))"
proof -
  have "sum_list (map f xs) = (\<Sum>i = 0..<length (map f xs). map f xs ! i)"
    by (rule sum_list_sum_nth)
  also have "\<dots> = (\<Sum>i<length xs. f (xs ! i))"
    by (simp add: atLeast0LessThan)
  finally show ?thesis .
qed


lemma pivot_cases: "pivot p \<Longrightarrow> \<exists>a as r. p = (a # as, r) \<and> a \<noteq> 0"
  by (cases p rule: pivot.cases) auto

lemma solve_sound:
  "solve k eqs = Some theta \<Longrightarrow> length eqs = k \<Longrightarrow> \<forall>e\<in>set eqs. length (fst e) = k \<Longrightarrow>
   length theta = k \<and> (\<forall>e\<in>set eqs. dot (fst e) theta = snd e)"
proof (induction k arbitrary: eqs theta)
  case 0
  then show ?case by simp
next
  case (Suc k)
  from Suc.prems(1) obtain p theta' where
    p: "find pivot eqs = Some p" and
    rec: "solve k (map (eliminate p) (remove1 p eqs)) = Some theta'" and
    theta: "theta = back_substitute p theta' # theta'"
    by (auto split: option.splits)
  from p have pin: "p \<in> set eqs" and piv: "pivot p"
    by (auto simp: find_Some_iff)
  from piv obtain a as r where pe: "p = (a # as, r)" and a: "a \<noteq> 0"
    using pivot_cases by blast
  from pin Suc.prems(3) pe have las: "length as = k" by fastforce
  have lrest: "length (map (eliminate p) (remove1 p eqs)) = k"
    using pin Suc.prems(2) by (simp add: length_remove1)
  have shape: "\<exists>b bs s. e = (b # bs, s) \<and> length bs = k" if "e \<in> set eqs" for e
  proof -
    from that Suc.prems(3) have "length (fst e) = Suc k" by blast
    then show ?thesis by (cases e; cases "fst e") auto
  qed
  have wrest: "\<forall>e\<in>set (map (eliminate p) (remove1 p eqs)). length (fst e) = k"
  proof
    fix e assume "e \<in> set (map (eliminate p) (remove1 p eqs))"
    then obtain q where q: "q \<in> set (remove1 p eqs)" and e: "e = eliminate p q" by auto
    from q have "q \<in> set eqs" using set_remove1_subset [of p eqs] by blast
    then obtain b bs s where "q = (b # bs, s)" "length bs = k" using shape by blast
    then show "length (fst e) = k" unfolding e pe using las by simp
  qed
  from Suc.IH [OF rec lrest wrest] have
    lt: "length theta' = k" and
    ih: "\<forall>e\<in>set (map (eliminate p) (remove1 p eqs)). dot (fst e) theta' = snd e"
    by blast+
  have t: "theta = (r - dot as theta') / a # theta'"
    unfolding theta pe by simp
  have "dot (fst e) theta = snd e" if e: "e \<in> set eqs" for e
  proof (cases "e = p")
    case True
    then show ?thesis unfolding pe t using a by simp
  next
    case False
    with e have er: "e \<in> set (remove1 p eqs)" by simp
    from e obtain b bs s where eq: "e = (b # bs, s)" and lbs: "length bs = k"
      using shape by blast
    from er have "eliminate p e \<in> set (map (eliminate p) (remove1 p eqs))" by simp
    with ih have "dot (fst (eliminate p e)) theta' = snd (eliminate p e)" by blast
    then have "dot (map (\<lambda>(b', a'). b' - b / a * a') (zip bs as)) theta' = s - b / a * r"
      unfolding pe eq by simp
    then have "dot bs theta' - b / a * dot as theta' = s - b / a * r"
      using dot_eliminate [of bs as theta' "b / a"] lbs las lt by simp
    then have "dot bs theta' = s - b / a * r + b / a * dot as theta'" by simp
    then show ?thesis
      unfolding eq t using a by (simp add: field_simps)
  qed
  with lt theta show ?case by simp
qed


lemma length_normal_equations: "length (normal_equations A y k) = k"
  by (simp add: normal_equations_def)

lemma width_normal_equations: "\<forall>e\<in>set (normal_equations A y k). length (fst e) = k"
  by (auto simp: normal_equations_def)

lemma nth_normal_equations:
  "j < k \<Longrightarrow> normal_equations A y k ! j =
     (map (\<lambda>l. sum_list (map (\<lambda>r. r ! j * r ! l) A)) [0..<k],
      sum_list (map (\<lambda>(r, t). r ! j * t) (zip A y)))"
  by (simp add: normal_equations_def)




lemma to_matrix_Inr:
  assumes "to_matrix X = Inr rows"
  shows "length rows = length (index X)" and "\<forall>x\<in>set rows. length x = length (columns X)"
  using assms by (auto simp: to_matrix_def split: if_splits)





lemma dot_replicate_0 [simp]: "dot u (replicate k 0) = 0"
proof (induction u arbitrary: k)
  case Nil
  show ?case by simp
next
  case (Cons a u)
  then show ?case by (cases k) simp_all
qed

lemma solve_None_singular:
  "solve k eqs = None \<Longrightarrow> length eqs = k \<Longrightarrow> \<forall>e\<in>set eqs. length (fst e) = k \<Longrightarrow>
   \<exists>v. length v = k \<and> (\<exists>l<k. v ! l \<noteq> 0) \<and> (\<forall>e\<in>set eqs. dot (fst e) v = 0)"
proof (induction k arbitrary: eqs)
  case 0
  then show ?case by simp
next
  case (Suc k)
  have shape: "\<exists>b bs s. e = (b # bs, s) \<and> length bs = k" if "e \<in> set eqs" for e
  proof -
    from that Suc.prems(3) have "length (fst e) = Suc k" by blast
    then show ?thesis by (cases e; cases "fst e") auto
  qed
  show ?case
  proof (cases "find pivot eqs")
    case None
    then have np: "\<forall>e\<in>set eqs. \<not> pivot e" by (auto simp: find_None_iff)
    let ?v = "1 # replicate k (0::real)"
    have "dot (fst e) ?v = 0" if "e \<in> set eqs" for e
    proof -
      from shape [OF that] obtain b bs s where e: "e = (b # bs, s)" by blast
      with np that have "b = 0" by fastforce
      then show ?thesis unfolding e by simp
    qed
    moreover have "length ?v = Suc k" by simp
    moreover have "\<exists>l<Suc k. ?v ! l \<noteq> 0" by (rule exI [of _ 0]) simp
    ultimately show ?thesis by blast
  next
    case (Some p)
    with Suc.prems(1) have rec: "solve k (map (eliminate p) (remove1 p eqs)) = None"
      by (auto split: option.splits)
    from Some have pin: "p \<in> set eqs" and piv: "pivot p"
      by (auto simp: find_Some_iff)
    from piv obtain a as r where pe: "p = (a # as, r)" and a: "a \<noteq> 0"
      using pivot_cases by blast
    from pin Suc.prems(3) pe have las: "length as = k" by fastforce
    have lrest: "length (map (eliminate p) (remove1 p eqs)) = k"
      using pin Suc.prems(2) by (simp add: length_remove1)
    have wrest: "\<forall>e\<in>set (map (eliminate p) (remove1 p eqs)). length (fst e) = k"
    proof
      fix e assume "e \<in> set (map (eliminate p) (remove1 p eqs))"
      then obtain q where q: "q \<in> set (remove1 p eqs)" and e: "e = eliminate p q" by auto
      from q have "q \<in> set eqs" using set_remove1_subset [of p eqs] by blast
      then obtain b bs s where "q = (b # bs, s)" "length bs = k" using shape by blast
      then show "length (fst e) = k" unfolding e pe using las by simp
    qed
    from Suc.IH [OF rec lrest wrest] obtain v l where
      lv: "length v = k" and l: "l < k" "v ! l \<noteq> 0" and
      ker: "\<forall>e\<in>set (map (eliminate p) (remove1 p eqs)). dot (fst e) v = 0"
      by blast
    let ?v = "(- dot as v / a) # v"
    have "dot (fst e) ?v = 0" if e: "e \<in> set eqs" for e
    proof (cases "e = p")
      case True
      then show ?thesis unfolding pe using a by simp
    next
      case False
      with e have er: "e \<in> set (remove1 p eqs)" by simp
      from e obtain b bs s where eq: "e = (b # bs, s)" and lbs: "length bs = k"
        using shape by blast
      from er have "eliminate p e \<in> set (map (eliminate p) (remove1 p eqs))" by simp
      with ker have "dot (fst (eliminate p e)) v = 0" by blast
      then have "dot (map (\<lambda>(b', a'). b' - b / a * a') (zip bs as)) v = 0"
        unfolding pe eq by simp
      then have "dot bs v - b / a * dot as v = 0"
        using dot_eliminate [of bs as v "b / a"] lbs las lv by simp
      then have "dot bs v = b / a * dot as v" by simp
      then show ?thesis
        unfolding eq using a by (simp add: field_simps)
    qed
    moreover have "length ?v = Suc k" using lv by simp
    moreover have "\<exists>l<Suc k. ?v ! l \<noteq> 0" using l by (intro exI [of _ "Suc l"]) simp
    ultimately show ?thesis by blast
  qed
qed

lemma normal_equations_kernel:
  assumes lv: "length v = k"
    and wA: "\<forall>r\<in>set A. length r = k"
    and ker: "\<forall>e\<in>set (normal_equations A y k). dot (fst e) v = 0"
  shows "\<forall>r\<in>set A. dot r v = 0"
proof -
  let ?n = "length A"
  let ?g = "\<lambda>i. dot (A ! i) v"
  have g: "?g i = (\<Sum>l<k. A ! i ! l * v ! l)" if "i < ?n" for i
  proof -
    from that have "A ! i \<in> set A" by simp
    with wA have "length (A ! i) = k" by blast
    then show ?thesis using lv by (rule dot_sum)
  qed
  have col: "(\<Sum>i<?n. A ! i ! j * ?g i) = 0" if j: "j < k" for j
  proof -
    have "normal_equations A y k ! j \<in> set (normal_equations A y k)"
      using j by (simp add: length_normal_equations)
    with ker have "dot (fst (normal_equations A y k ! j)) v = 0" by blast
    then have eq: "dot (map (\<lambda>l. sum_list (map (\<lambda>r. r ! j * r ! l) A)) [0..<k]) v = 0"
      using j by (simp add: nth_normal_equations)
    have "dot (map (\<lambda>l. sum_list (map (\<lambda>r. r ! j * r ! l) A)) [0..<k]) v =
        (\<Sum>l<k. map (\<lambda>l. sum_list (map (\<lambda>r. r ! j * r ! l) A)) [0..<k] ! l * v ! l)"
      by (rule dot_sum) (simp_all add: lv)
    also have "\<dots> = (\<Sum>l<k. (\<Sum>i<?n. A ! i ! j * A ! i ! l) * v ! l)"
      by (simp add: sum_list_nth)
    also have "\<dots> = (\<Sum>l<k. \<Sum>i<?n. A ! i ! j * (A ! i ! l * v ! l))"
      by (simp only: sum_distrib_right mult.assoc)
    also have "\<dots> = (\<Sum>i<?n. \<Sum>l<k. A ! i ! j * (A ! i ! l * v ! l))"
      by (rule sum.swap)
    also have "\<dots> = (\<Sum>i<?n. A ! i ! j * (\<Sum>l<k. A ! i ! l * v ! l))"
      by (simp add: sum_distrib_left)
    also have "\<dots> = (\<Sum>i<?n. A ! i ! j * ?g i)"
      using g by simp
    finally show ?thesis using eq by simp
  qed
  have "(\<Sum>i<?n. (?g i)\<^sup>2) = (\<Sum>i<?n. \<Sum>l<k. v ! l * (A ! i ! l * ?g i))"
  proof (rule sum.cong [OF refl])
    fix i assume "i \<in> {..<?n}"
    then have "?g i = (\<Sum>l<k. A ! i ! l * v ! l)" using g by simp
    then have "(?g i)\<^sup>2 = (\<Sum>l<k. A ! i ! l * v ! l) * ?g i"
      by (simp add: power2_eq_square)
    also have "\<dots> = (\<Sum>l<k. A ! i ! l * v ! l * ?g i)"
      by (rule sum_distrib_right)
    also have "\<dots> = (\<Sum>l<k. v ! l * (A ! i ! l * ?g i))"
      by (rule sum.cong [OF refl]) (simp only: mult_ac)
    finally show "(?g i)\<^sup>2 = (\<Sum>l<k. v ! l * (A ! i ! l * ?g i))" .
  qed
  also have "\<dots> = (\<Sum>l<k. \<Sum>i<?n. v ! l * (A ! i ! l * ?g i))"
    by (rule sum.swap)
  also have "\<dots> = (\<Sum>l<k. v ! l * (\<Sum>i<?n. A ! i ! l * ?g i))"
    by (simp add: sum_distrib_left)
  also have "\<dots> = 0"
    using col by simp
  finally have "(\<Sum>i<?n. (?g i)\<^sup>2) = 0" .
  then have z: "\<forall>i\<in>{..<?n}. (?g i)\<^sup>2 = 0"
    by (subst (asm) sum_nonneg_eq_0_iff) simp_all
  show ?thesis
  proof
    fix r assume "r \<in> set A"
    then obtain i where "i < ?n" "r = A ! i" by (auto simp: in_set_conv_nth)
    with z show "dot r v = 0" by simp
  qed
qed

text \<open>
  The fitter reports a \<open>FitError\<close> only for a rank-deficient design, the situation in which
  the specification allows it: some combination of the feature columns and the constant
  column, not all of its coefficients zero, vanishes on every record of the Training subset.
\<close>

lemma linear_regression_fit_FitError:
  assumes "linear_regression_fit X y = Inl FitError"
  shows "\<exists>rows c0 c. to_matrix X = Inr rows \<and> length c = length (columns X) \<and>
    (c0 \<noteq> 0 \<or> (\<exists>l<length c. c ! l \<noteq> 0)) \<and> (\<forall>x\<in>set rows. c0 + dot x c = 0)"
proof -
  let ?k = "Suc (length (columns X))"
  from assms obtain rows targets where
    m: "to_matrix X = Inr rows" and v: "to_vector y = Inr targets" and
    s: "solve ?k (normal_equations (map (\<lambda>x. 1 # x) rows) targets ?k) = None \<or>
        solve ?k (normal_equations (map (\<lambda>x. 1 # x) rows) targets ?k) = Some []"
    unfolding linear_regression_fit_def to_matrix_def to_vector_def
    by (auto split: sum.splits if_splits option.splits list.splits)
  let ?A = "map (\<lambda>x. 1 # x) rows"
  have "solve ?k (normal_equations ?A targets ?k) \<noteq> Some []"
  proof
    assume "solve ?k (normal_equations ?A targets ?k) = Some []"
    from solve_sound [OF this length_normal_equations width_normal_equations]
    show False by simp
  qed
  with s have none: "solve ?k (normal_equations ?A targets ?k) = None" by blast
  from solve_None_singular [OF none length_normal_equations width_normal_equations]
  obtain v l where lv: "length v = ?k" and l: "l < ?k" "v ! l \<noteq> 0" and
    ker: "\<forall>e\<in>set (normal_equations ?A targets ?k). dot (fst e) v = 0"
    by blast
  from lv obtain c0 c where vc: "v = c0 # c" and lc: "length c = length (columns X)"
    by (cases v) auto
  have wA: "\<forall>r\<in>set ?A. length r = ?k"
    using to_matrix_Inr(2) [OF m] by auto
  from normal_equations_kernel [OF lv wA ker] have "\<forall>x\<in>set rows. c0 + dot x c = 0"
    unfolding vc by simp
  moreover have "c0 \<noteq> 0 \<or> (\<exists>l<length c. c ! l \<noteq> 0)"
  proof (cases l)
    case 0
    with l vc show ?thesis by simp
  next
    case (Suc l')
    with l vc lc have "l' < length c" "c ! l' \<noteq> 0" by simp_all
    then show ?thesis by blast
  qed
  ultimately show ?thesis using m lc by blast
qed

end
